theory Spec2Isabelle
  imports Complex_Main "HOL-Library.Log_Nat"
begin

section \<open>Values, errors and the collaborators of the animations\<close>

text \<open>
  The module \<^verbatim>\<open>adafruit_led_animation/sparkle.py\<close> holds two classes, \<^verbatim>\<open>Sparkle\<close> and
  \<^verbatim>\<open>SparklePulse\<close>. Both mutate a pixel buffer they do not own and ask it to be shown.
  A pixel slot holds a Python value: \<^verbatim>\<open>None\<close>, a tuple of integer channels or a list of
  integer channels (\<^verbatim>\<open>SparklePulse.draw\<close> writes a list). Python's \<^verbatim>\<open>==\<close> on these values
  is structural, and a list never equals a tuple.
\<close>

datatype pyval = PyNone | PyTuple "int list" | PyList "int list"

datatype error =
    ValueError string
  | IndexError
  | TypeError
  | ZeroDivisionError
  | OverflowError
  | IOError

text \<open>What the pixel buffer is asked to do: an item assignment or a flush.\<close>

datatype request = SetItem int pyval | Show

text \<open>
  Everything outside the two classes: the pixel buffer with the log of the requests it
  received (oldest first), the outcome of each flush (\<open>show_faults w k\<close> holds when the
  flush number \<open>k\<close>, counted from 0, fails), the random source as a stream of raw values
  with the number already consumed, and the monotonic clock as a stream of readings.
\<close>

record world =
  pixel_object :: "pyval list"
  requests :: "request list"
  show_faults :: "nat \<Rightarrow> bool"
  entropy :: "nat \<Rightarrow> nat"
  drawn :: nat
  clock :: "nat \<Rightarrow> int"
  clock_reads :: nat

text \<open>The fields of the base class \<^verbatim>\<open>Animation\<close> this module uses: \<^verbatim>\<open>self._color\<close>.\<close>

record animation = world +
  self_color :: pyval

text \<open>\<^verbatim>\<open>Sparkle\<close>: \<^verbatim>\<open>self._half_color\<close>, \<^verbatim>\<open>self._dim_color\<close>, \<^verbatim>\<open>self._num_sparkles\<close>.\<close>

record sparkle = animation +
  self_half_color :: pyval
  self_dim_color :: pyval
  self_num_sparkles :: int

text \<open>
  Modelled from the spec: the pixel buffer's \<^verbatim>\<open>get(index)\<close> and \<^verbatim>\<open>set(index, Color)\<close>, which
  belong to the pixel driver and are not among the sources. The indices are \<open>[0, length)\<close>;
  an index outside is an \<open>IndexError\<close>. An assignment is logged before it is checked, so the
  log holds every index the animation tried to write.
\<close>

definition getitem :: "int \<Rightarrow> 'a world_scheme \<Rightarrow> error + pyval" where
  "getitem i s =
     (if 0 \<le> i \<and> i < int (length (pixel_object s))
      then Inr (pixel_object s ! nat i)
      else Inl IndexError)"

definition setitem :: "int \<Rightarrow> pyval \<Rightarrow> 'a world_scheme \<Rightarrow> error option \<times> 'a world_scheme" where
  "setitem i v s =
     (if 0 \<le> i \<and> i < int (length (pixel_object s))
      then (None, s\<lparr>pixel_object := (pixel_object s)[nat i := v],
                     requests := requests s @ [SetItem i v]\<rparr>)
      else (Some IndexError, s\<lparr>requests := requests s @ [SetItem i v]\<rparr>))"

text \<open>
  Modelled from the spec: \<^verbatim>\<open>Animation.show\<close>, which is not among the sources; it forwards to
  the driver's \<^verbatim>\<open>flush() -> Result<(), IOError>\<close>. The request is logged, then the flush
  succeeds or raises.
\<close>

definition Animation_show :: "'a world_scheme \<Rightarrow> error option \<times> 'a world_scheme" where
  "Animation_show s =
     (let k = count_list (requests s) Show;
          s' = s\<lparr>requests := requests s @ [Show]\<rparr>
      in if show_faults s k then (Some IOError, s') else (None, s'))"

text \<open>
  Modelled from the spec: the random source \<^verbatim>\<open>uniform_int(low, high_inclusive)\<close>, Python's
  \<^verbatim>\<open>random.randint\<close>. It raises \<open>ValueError\<close> on an empty range; otherwise the next raw
  value of the stream is reduced into \<open>[a, b]\<close>, so that every value of the range can come
  out and no other.
\<close>

definition randint :: "int \<Rightarrow> int \<Rightarrow> 'a world_scheme \<Rightarrow> (error + int) \<times> 'a world_scheme" where
  "randint a b s =
     (if b < a then (Inl (ValueError ''empty range for randrange()''), s)
      else (Inr (a + int (entropy s (drawn s) mod nat (b - a + 1))),
            s\<lparr>drawn := drawn s + 1\<rparr>))"

section \<open>Sparkle\<close>

subsection \<open>\<^verbatim>\<open>Sparkle._recompute_color\<close>\<close>

text \<open>
  The loop \<^verbatim>\<open>for pixel in range(len(self.pixel_object))\<close> of lines 77 to 81. The \<^verbatim>\<open>elif\<close>
  reads the same slot again; nothing was written in between, so the model reads once.
\<close>

fun recolor_loop ::
  "nat list \<Rightarrow> pyval \<Rightarrow> pyval \<Rightarrow> 'a sparkle_scheme \<Rightarrow> error option \<times> 'a sparkle_scheme" where
  "recolor_loop [] half_color dim_color s = (None, s)"
| "recolor_loop (pixel # rest) half_color dim_color s =
     (case getitem (int pixel) s of
        Inl e \<Rightarrow> (Some e, s)
      | Inr v \<Rightarrow>
          if v = self_half_color s then
            (case setitem (int pixel) half_color s of
               (Some e, s') \<Rightarrow> (Some e, s')
             | (None, s') \<Rightarrow> recolor_loop rest half_color dim_color s')
          else if v = self_dim_color s then
            (case setitem (int pixel) dim_color s of
               (Some e, s') \<Rightarrow> (Some e, s')
             | (None, s') \<Rightarrow> recolor_loop rest half_color dim_color s')
          else recolor_loop rest half_color dim_color s)"

definition Sparkle_recompute_color ::
  "int list \<Rightarrow> 'a sparkle_scheme \<Rightarrow> error option \<times> 'a sparkle_scheme" where
  "Sparkle_recompute_color color s =
     (let half_color = PyTuple (map (\<lambda>rgb. color ! rgb div 4) [0..<length color]);
          dim_color = PyTuple (map (\<lambda>rgb. color ! rgb div 10) [0..<length color])
      in case recolor_loop [0..<length (pixel_object s)] half_color dim_color s of
           (Some e, s') \<Rightarrow> (Some e, s')
         | (None, s') \<Rightarrow>
             (None, s'\<lparr>self_half_color := half_color, self_dim_color := dim_color\<rparr>))"

subsection \<open>\<^verbatim>\<open>Sparkle.__init__\<close>\<close>

text \<open>
  Modelled from the spec: \<^verbatim>\<open>Animation.__init__\<close> and its colour setter, which are not among
  the sources. Construction stores the pixel buffer and the base colour, and the colour
  assignment runs the subclass's \<^verbatim>\<open>_recompute_color\<close> (passed here as \<open>recompute\<close>), so the
  derived shades exist once construction is over. The speed and the name only reach the
  base class and are left out.
\<close>

definition Animation_init ::
  "(int list \<Rightarrow> 'a animation_scheme \<Rightarrow> error option \<times> 'a animation_scheme) \<Rightarrow>
   int list \<Rightarrow> 'a animation_scheme \<Rightarrow> error + 'a animation_scheme" where
  "Animation_init recompute color s =
     (case recompute color (s\<lparr>self_color := PyTuple color\<rparr>) of
        (Some e, s') \<Rightarrow> Inl e
      | (None, s') \<Rightarrow> Inr s')"

definition Sparkle_init :: "world \<Rightarrow> int list \<Rightarrow> int \<Rightarrow> error + sparkle" where
  "Sparkle_init w color num_sparkles =
     (if length (pixel_object w) < 2
      then Inl (ValueError ''Sparkle needs at least 2 pixels'')
      else Animation_init Sparkle_recompute_color color
             \<lparr>pixel_object = pixel_object w, requests = requests w,
              show_faults = show_faults w, entropy = entropy w, drawn = drawn w,
              clock = clock w, clock_reads = clock_reads w,
              self_color = PyNone,
              self_half_color = PyNone, self_dim_color = PyNone,
              self_num_sparkles = num_sparkles\<rparr>)"

subsection \<open>\<^verbatim>\<open>Sparkle.draw\<close>\<close>

text \<open>The list comprehension of lines 86 to 89: one \<^verbatim>\<open>randint\<close> per sparkle, in order.\<close>

fun random_pixels :: "nat \<Rightarrow> 'a world_scheme \<Rightarrow> (error + int list) \<times> 'a world_scheme" where
  "random_pixels 0 s = (Inr [], s)"
| "random_pixels (Suc n) s =
     (case randint 0 (int (length (pixel_object s)) - 2) s of
        (Inl e, s') \<Rightarrow> (Inl e, s')
      | (Inr pixel, s') \<Rightarrow>
          (case random_pixels n s' of
             (Inl e, s'') \<Rightarrow> (Inl e, s'')
           | (Inr pixels, s'') \<Rightarrow> (Inr (pixel # pixels), s'')))"

text \<open>The loop of lines 90 and 91.\<close>

fun light_loop :: "int list \<Rightarrow> 'a animation_scheme \<Rightarrow> error option \<times> 'a animation_scheme" where
  "light_loop [] s = (None, s)"
| "light_loop (pixel # rest) s =
     (case setitem pixel (self_color s) s of
        (Some e, s') \<Rightarrow> (Some e, s')
      | (None, s') \<Rightarrow> light_loop rest s')"

text \<open>The loop of lines 93 to 95.\<close>

fun decay_loop :: "int list \<Rightarrow> 'a sparkle_scheme \<Rightarrow> error option \<times> 'a sparkle_scheme" where
  "decay_loop [] s = (None, s)"
| "decay_loop (pixel # rest) s =
     (case setitem pixel (self_half_color s) s of
        (Some e, s') \<Rightarrow> (Some e, s')
      | (None, s') \<Rightarrow>
          (case setitem (pixel + 1) (self_dim_color s') s' of
             (Some e, s'') \<Rightarrow> (Some e, s'')
           | (None, s'') \<Rightarrow> decay_loop rest s''))"

definition Sparkle_draw :: "'a sparkle_scheme \<Rightarrow> error option \<times> 'a sparkle_scheme" where
  "Sparkle_draw s =
     (case random_pixels (nat (self_num_sparkles s)) s of
        (Inl e, s1) \<Rightarrow> (Some e, s1)
      | (Inr pixels, s1) \<Rightarrow>
          (case light_loop pixels s1 of
             (Some e, s2) \<Rightarrow> (Some e, s2)
           | (None, s2) \<Rightarrow>
               (case Animation_show s2 of
                  (Some e, s3) \<Rightarrow> (Some e, s3)
                | (None, s3) \<Rightarrow>
                    (case decay_loop pixels s3 of
                       (Some e, s4) \<Rightarrow> (Some e, s4)
                     | (None, s4) \<Rightarrow> Animation_show s4))))"

section \<open>SparklePulse\<close>

text \<open>
  \<^verbatim>\<open>SparklePulse\<close> computes with Python numbers: the period and the intensities are integers
  or floats, and the elapsed time is a float. The arithmetic belongs to the language, not
  to the module, so it is a parameter: \<open>'n\<close> is the type of numbers and \<open>'n py_arith\<close>
  holds the operations the module uses. \<open>of_int_n\<close> reads an integer as a number; true
  division and modulo raise on a zero divisor; \<open>int_n\<close> is \<^verbatim>\<open>int(x)\<close>, which truncates and
  raises on an infinity or a NaN.
\<close>

record 'n py_arith =
  of_int_n :: "int \<Rightarrow> 'n"
  add_n :: "'n \<Rightarrow> 'n \<Rightarrow> 'n"
  sub_n :: "'n \<Rightarrow> 'n \<Rightarrow> 'n"
  mul_n :: "'n \<Rightarrow> 'n \<Rightarrow> 'n"
  truediv_n :: "'n \<Rightarrow> 'n \<Rightarrow> error + 'n"
  mod_n :: "'n \<Rightarrow> 'n \<Rightarrow> error + 'n"
  gt_n :: "'n \<Rightarrow> 'n \<Rightarrow> bool"
  int_n :: "'n \<Rightarrow> error + int"

text \<open>
  The fields of \<^verbatim>\<open>SparklePulse\<close>. Its \<^verbatim>\<open>self._half_color\<close> and \<^verbatim>\<open>self._dim_color\<close> are named
  \<open>pulse_half_color\<close> and \<open>pulse_dim_color\<close> here, apart from the fields of \<^verbatim>\<open>Sparkle\<close>.
\<close>

record 'n sparkle_pulse = animation +
  max_intensity :: 'n
  min_intensity :: 'n
  self_period :: 'n
  self_intensity_delta :: 'n
  self_half_period :: 'n
  self_position_factor :: 'n
  self_bpp :: nat
  self_last_update :: int
  self_cycle_position :: 'n
  pulse_half_color :: pyval
  pulse_dim_color :: pyval

text \<open>
  Modelled from the spec: \<^verbatim>\<open>monotonic_ns\<close> and \<^verbatim>\<open>NANOS_PER_SECOND\<close>, imported from the
  package and not among the sources: the clock's \<^verbatim>\<open>now()\<close> in nanoseconds, and the number of
  nanoseconds in a second.
\<close>

definition monotonic_ns :: "'a world_scheme \<Rightarrow> int \<times> 'a world_scheme" where
  "monotonic_ns s = (clock s (clock_reads s), s\<lparr>clock_reads := clock_reads s + 1\<rparr>)"

definition NANOS_PER_SECOND :: int where
  "NANOS_PER_SECOND = 1000000000"

text \<open>\<^verbatim>\<open>len(v)\<close> and \<^verbatim>\<open>v[n]\<close> on the value of a pixel or of a colour.\<close>

fun len_of :: "pyval \<Rightarrow> error + nat" where
  "len_of PyNone = Inl TypeError"
| "len_of (PyTuple xs) = Inr (length xs)"
| "len_of (PyList xs) = Inr (length xs)"

fun channel :: "pyval \<Rightarrow> nat \<Rightarrow> error + int" where
  "channel PyNone n = Inl TypeError"
| "channel (PyTuple xs) n = (if n < length xs then Inr (xs ! n) else Inl IndexError)"
| "channel (PyList xs) n = (if n < length xs then Inr (xs ! n) else Inl IndexError)"

subsection \<open>\<^verbatim>\<open>SparklePulse._recompute_color\<close>\<close>

text \<open>Lines 130 to 139 repeat lines 74 to 83 on the other class.\<close>

fun pulse_recolor_loop ::
  "nat list \<Rightarrow> pyval \<Rightarrow> pyval \<Rightarrow> ('n, 'a) sparkle_pulse_scheme \<Rightarrow>
   error option \<times> ('n, 'a) sparkle_pulse_scheme" where
  "pulse_recolor_loop [] half_color dim_color s = (None, s)"
| "pulse_recolor_loop (pixel # rest) half_color dim_color s =
     (case getitem (int pixel) s of
        Inl e \<Rightarrow> (Some e, s)
      | Inr v \<Rightarrow>
          if v = pulse_half_color s then
            (case setitem (int pixel) half_color s of
               (Some e, s') \<Rightarrow> (Some e, s')
             | (None, s') \<Rightarrow> pulse_recolor_loop rest half_color dim_color s')
          else if v = pulse_dim_color s then
            (case setitem (int pixel) dim_color s of
               (Some e, s') \<Rightarrow> (Some e, s')
             | (None, s') \<Rightarrow> pulse_recolor_loop rest half_color dim_color s')
          else pulse_recolor_loop rest half_color dim_color s)"

definition SparklePulse_recompute_color ::
  "int list \<Rightarrow> ('n, 'a) sparkle_pulse_scheme \<Rightarrow> error option \<times> ('n, 'a) sparkle_pulse_scheme" where
  "SparklePulse_recompute_color color s =
     (let half_color = PyTuple (map (\<lambda>rgb. color ! rgb div 4) [0..<length color]);
          dim_color = PyTuple (map (\<lambda>rgb. color ! rgb div 10) [0..<length color])
      in case pulse_recolor_loop [0..<length (pixel_object s)] half_color dim_color s of
           (Some e, s') \<Rightarrow> (Some e, s')
         | (None, s') \<Rightarrow>
             (None, s'\<lparr>pulse_half_color := half_color, pulse_dim_color := dim_color\<rparr>))"

subsection \<open>\<^verbatim>\<open>SparklePulse.__init__\<close>\<close>

text \<open>
  The guard of line 115 comes first. Then \<^verbatim>\<open>period / 2\<close> and \<^verbatim>\<open>1 / self._half_period\<close> may
  raise, as may \<^verbatim>\<open>len(pixel_object[0])\<close>; the clock is read once; the base class is
  initialised last.
\<close>

definition SparklePulse_init ::
  "'n py_arith \<Rightarrow> world \<Rightarrow> int list \<Rightarrow> 'n \<Rightarrow> 'n \<Rightarrow> 'n \<Rightarrow> error + 'n sparkle_pulse" where
  "SparklePulse_init ops w color period max_intensity' min_intensity' =
     (if length (pixel_object w) < 2
      then Inl (ValueError ''Sparkle needs at least 2 pixels'')
      else
        case truediv_n ops period (of_int_n ops 2) of
          Inl e \<Rightarrow> Inl e
        | Inr half_period \<Rightarrow>
           (case truediv_n ops (of_int_n ops 1) half_period of
              Inl e \<Rightarrow> Inl e
            | Inr position_factor \<Rightarrow>
               (case getitem 0 w of
                  Inl e \<Rightarrow> Inl e
                | Inr first \<Rightarrow>
                   (case len_of first of
                      Inl e \<Rightarrow> Inl e
                    | Inr bpp \<Rightarrow>
                       (case monotonic_ns w of
                          (now, w') \<Rightarrow>
                            Animation_init SparklePulse_recompute_color color
                              \<lparr>pixel_object = pixel_object w', requests = requests w',
                               show_faults = show_faults w', entropy = entropy w',
                               drawn = drawn w', clock = clock w',
                               clock_reads = clock_reads w',
                               self_color = PyNone,
                               max_intensity = max_intensity',
                               min_intensity = min_intensity',
                               self_period = period,
                               self_intensity_delta = sub_n ops max_intensity' min_intensity',
                               self_half_period = half_period,
                               self_position_factor = position_factor,
                               self_bpp = bpp,
                               self_last_update = now,
                               self_cycle_position = of_int_n ops 0,
                               pulse_half_color = PyNone,
                               pulse_dim_color = PyNone\<rparr>)))))"

subsection \<open>\<^verbatim>\<open>SparklePulse.draw\<close>\<close>

text \<open>
  Lines 144 to 149: read the clock, turn the elapsed nanoseconds into seconds, store the
  reading, advance the cycle position modulo the period and store it.
\<close>

definition advance_cycle ::
  "'n py_arith \<Rightarrow> ('n, 'a) sparkle_pulse_scheme \<Rightarrow>
   (error + 'n) \<times> ('n, 'a) sparkle_pulse_scheme" where
  "advance_cycle ops s =
     (case monotonic_ns s of
        (now, s1) \<Rightarrow>
          (case truediv_n ops (of_int_n ops (now - self_last_update s1))
                  (of_int_n ops NANOS_PER_SECOND) of
             Inl e \<Rightarrow> (Inl e, s1)
           | Inr time_since_last_draw \<Rightarrow>
               let s2 = s1\<lparr>self_last_update := now\<rparr> in
               (case mod_n ops (add_n ops (self_cycle_position s2) time_since_last_draw)
                       (self_period s2) of
                  Inl e \<Rightarrow> (Inl e, s2)
                | Inr pos \<Rightarrow> (Inr pos, s2\<lparr>self_cycle_position := pos\<rparr>))))"

text \<open>Lines 150 to 154: fold the position at the half period, then interpolate.\<close>

definition pulse_intensity :: "'n py_arith \<Rightarrow> ('n, 'a) sparkle_pulse_scheme \<Rightarrow> 'n \<Rightarrow> 'n" where
  "pulse_intensity ops s pos0 =
     (let pos = (if gt_n ops pos0 (self_half_period s)
                 then sub_n ops (self_period s) pos0 else pos0)
      in add_n ops (min_intensity s)
           (mul_n ops (mul_n ops pos (self_intensity_delta s)) (self_position_factor s)))"

text \<open>Line 155: \<^verbatim>\<open>[int(self.color[n] * intensity) for n in range(self._bpp)]\<close>.\<close>

fun scaled_channels :: "'n py_arith \<Rightarrow> pyval \<Rightarrow> 'n \<Rightarrow> nat list \<Rightarrow> error + int list" where
  "scaled_channels ops color intensity [] = Inr []"
| "scaled_channels ops color intensity (n # rest) =
     (case channel color n of
        Inl e \<Rightarrow> Inl e
      | Inr c \<Rightarrow>
          (case int_n ops (mul_n ops (of_int_n ops c) intensity) of
             Inl e \<Rightarrow> Inl e
           | Inr v \<Rightarrow>
               (case scaled_channels ops color intensity rest of
                  Inl e \<Rightarrow> Inl e
                | Inr vs \<Rightarrow> Inr (v # vs))))"

definition SparklePulse_draw ::
  "'n py_arith \<Rightarrow> ('n, 'a) sparkle_pulse_scheme \<Rightarrow>
   error option \<times> ('n, 'a) sparkle_pulse_scheme" where
  "SparklePulse_draw ops s =
     (case randint 0 (int (length (pixel_object s)) - 2) s of
        (Inl e, s1) \<Rightarrow> (Some e, s1)
      | (Inr pixel, s1) \<Rightarrow>
          (case advance_cycle ops s1 of
             (Inl e, s2) \<Rightarrow> (Some e, s2)
           | (Inr pos, s2) \<Rightarrow>
               (case scaled_channels ops (self_color s2) (pulse_intensity ops s2 pos)
                       [0..<self_bpp s2] of
                  Inl e \<Rightarrow> (Some e, s2)
                | Inr color \<Rightarrow>
                    (case setitem pixel (PyList color) s2 of
                       (Some e, s3) \<Rightarrow> (Some e, s3)
                     | (None, s3) \<Rightarrow> Animation_show s3))))"

section \<open>The recompute contract in the words of the specification\<close>

text \<open>
  What the specification says of one pass of \<^verbatim>\<open>recompute\<close>, to be compared with the loop
  above: a pixel equal to the previous half shade becomes the new half shade; otherwise a
  pixel equal to the previous dim shade becomes the new dim shade; any other pixel stays.
  \<open>repaint_requests\<close> lists the assignments such a pass makes over the slots \<open>idxs\<close>.
\<close>

definition repainted :: "pyval \<Rightarrow> pyval \<Rightarrow> pyval \<Rightarrow> pyval \<Rightarrow> pyval \<Rightarrow> pyval" where
  "repainted old_half old_dim half_color dim_color v =
     (if v = old_half then half_color else if v = old_dim then dim_color else v)"

definition repaint_requests ::
  "pyval \<Rightarrow> pyval \<Rightarrow> pyval \<Rightarrow> pyval \<Rightarrow> pyval list \<Rightarrow> nat list \<Rightarrow> request list" where
  "repaint_requests old_half old_dim half_color dim_color buf idxs =
     map (\<lambda>i. SetItem (int i) (repainted old_half old_dim half_color dim_color (buf ! i)))
       (filter (\<lambda>i. buf ! i = old_half \<or> buf ! i = old_dim) idxs)"

text \<open>The derived shades: channel-wise floor division by 4 and by 10.\<close>

definition half_of :: "int list \<Rightarrow> pyval" where
  "half_of color = PyTuple (map (\<lambda>c. c div 4) color)"

definition dim_of :: "int list \<Rightarrow> pyval" where
  "dim_of color = PyTuple (map (\<lambda>c. c div 10) color)"

section \<open>One tick of Sparkle in the words of the specification\<close>

text \<open>
  The indices one \<^verbatim>\<open>draw()\<close> with \<open>n\<close> sparkles chooses from the random source, the buffer
  after each chosen pixel received the base colour, the buffer after each chosen pixel
  received the half shade and its successor the dim shade, and the assignments sent in
  each of the two steps.
\<close>

definition chosen_pixels :: "nat \<Rightarrow> 'a world_scheme \<Rightarrow> int list" where
  "chosen_pixels n s =
     map (\<lambda>k. int (entropy s (drawn s + k) mod (length (pixel_object s) - 1))) [0..<n]"

definition lit :: "pyval \<Rightarrow> int list \<Rightarrow> pyval list \<Rightarrow> pyval list" where
  "lit color pixels buf = fold (\<lambda>pixel b. b[nat pixel := color]) pixels buf"

definition decayed :: "pyval \<Rightarrow> pyval \<Rightarrow> int list \<Rightarrow> pyval list \<Rightarrow> pyval list" where
  "decayed half_color dim_color pixels buf =
     fold (\<lambda>pixel b. b[nat pixel := half_color, nat (pixel + 1) := dim_color]) pixels buf"

definition light_requests :: "pyval \<Rightarrow> int list \<Rightarrow> request list" where
  "light_requests color pixels = map (\<lambda>pixel. SetItem pixel color) pixels"

definition decay_requests :: "pyval \<Rightarrow> pyval \<Rightarrow> int list \<Rightarrow> request list" where
  "decay_requests half_color dim_color pixels =
     concat (map (\<lambda>pixel. [SetItem pixel half_color, SetItem (pixel + 1) dim_color]) pixels)"

text \<open>An assignment whose index lies in \<open>[0, N)\<close>; a flush has no index.\<close>

definition in_bounds :: "nat \<Rightarrow> request \<Rightarrow> bool" where
  "in_bounds N r = (case r of SetItem i v \<Rightarrow> 0 \<le> i \<and> i < int N | Show \<Rightarrow> True)"

section \<open>An arithmetic without rounding\<close>

text \<open>
  One instance of the arithmetic parameter, on the rationals: every operation is exact,
  the modulo follows the sign of the divisor as Python's does, and \<^verbatim>\<open>int(x)\<close> truncates
  towards zero. It is the limit case of the rounded arithmetic below and not the
  arithmetic of Python's floats.
\<close>

definition exact_arith :: "rat py_arith" where
  "exact_arith =
     \<lparr>of_int_n = of_int,
      add_n = (\<lambda>a b. a + b),
      sub_n = (\<lambda>a b. a - b),
      mul_n = (\<lambda>a b. a * b),
      truediv_n = (\<lambda>a b. if b = 0 then Inl ZeroDivisionError else Inr (a / b)),
      mod_n = (\<lambda>a b. if b = 0 then Inl ZeroDivisionError
                       else Inr (a - b * of_int \<lfloor>a / b\<rfloor>)),
      gt_n = (\<lambda>a b. a > b),
      int_n = (\<lambda>a. Inr (if 0 \<le> a then \<lfloor>a\<rfloor> else \<lceil>a\<rceil>))\<rparr>"

section \<open>Arithmetic that rounds\<close>

text \<open>
  Python's floats are IEEE binary64 numbers: 53 significant bits, every operation rounded
  to the nearest representable value, ties to the even significand. \<open>round_half_even\<close>
  rounds a rational to an integer that way. \<open>binade x\<close> is the exponent \<open>e\<close> with
  \<open>2 ^ e \<le> x < 2 ^ (e + 1)\<close> for a positive \<open>x\<close>, found from the bit lengths of its
  numerator and denominator. \<open>round53\<close> keeps 53 bits from the leading one. The exponent
  is not bounded, so overflow to infinity, subnormal numbers and NaN are left out.
\<close>

definition round_half_even :: "rat \<Rightarrow> int" where
  "round_half_even y =
     (let f = \<lfloor>y\<rfloor>; r = y - of_int f
      in if r < 1 / 2 then f else if 1 / 2 < r then f + 1 else if even f then f else f + 1)"

definition binade :: "rat \<Rightarrow> int" where
  "binade x =
     (let (p, q) = quotient_of x; d = bitlen p - bitlen q
      in if 2 powi d \<le> x then d else d - 1)"

definition round_pos :: "rat \<Rightarrow> rat" where
  "round_pos x =
     of_int (round_half_even (x / 2 powi (binade x - 52))) * 2 powi (binade x - 52)"

definition round53 :: "rat \<Rightarrow> rat" where
  "round53 x = (if x = 0 then 0 else if 0 < x then round_pos x else - round_pos (- x))"

text \<open>
  The arithmetic in which every operation is the exact one followed by the rounding
  \<open>rnd\<close>; comparison and \<^verbatim>\<open>int(x)\<close> do not round. With \<open>round53\<close> it is the arithmetic of
  Python's floats on the values that stay finite.
\<close>

definition rounded_arith :: "(rat \<Rightarrow> rat) \<Rightarrow> rat py_arith" where
  "rounded_arith rnd =
     \<lparr>of_int_n = (\<lambda>i. rnd (of_int i)),
      add_n = (\<lambda>a b. rnd (a + b)),
      sub_n = (\<lambda>a b. rnd (a - b)),
      mul_n = (\<lambda>a b. rnd (a * b)),
      truediv_n = (\<lambda>a b. if b = 0 then Inl ZeroDivisionError else Inr (rnd (a / b))),
      mod_n = (\<lambda>a b. if b = 0 then Inl ZeroDivisionError
                       else Inr (rnd (a - b * of_int \<lfloor>a / b\<rfloor>))),
      gt_n = (\<lambda>a b. b < a),
      int_n = (\<lambda>a. Inr (if 0 \<le> a then \<lfloor>a\<rfloor> else \<lceil>a\<rceil>))\<rparr>"

definition double_arith :: "rat py_arith" where
  "double_arith = rounded_arith round53"

text \<open>
  What the properties below need of a rounding with unit roundoff \<open>u\<close>: it is monotone,
  its relative error is at most \<open>u < 1\<close>, and it leaves 1 and 2 alone.
\<close>

definition rounding :: "rat \<Rightarrow> (rat \<Rightarrow> rat) \<Rightarrow> bool" where
  "rounding u rnd \<longleftrightarrow>
     0 \<le> u \<and> u < 1 \<and> (\<forall>x y. x \<le> y \<longrightarrow> rnd x \<le> rnd y) \<and>
     (\<forall>x. \<bar>rnd x - x\<bar> \<le> u * \<bar>x\<bar>) \<and> rnd 1 = 1 \<and> rnd 2 = 2"

text \<open>
  The state of a \<^verbatim>\<open>SparklePulse\<close> whose period is positive, whose intensities are in
  order, whose period and minimum intensity are values of the arithmetic, and whose
  derived fields are what lines 120 to 122 compute when halving the period is exact.
\<close>

definition pulse_configured :: "(rat \<Rightarrow> rat) \<Rightarrow> (rat, 'a) sparkle_pulse_scheme \<Rightarrow> bool" where
  "pulse_configured rnd s \<longleftrightarrow>
     0 < self_period s \<and> min_intensity s \<le> max_intensity s \<and>
     rnd (self_period s) = self_period s \<and> rnd (min_intensity s) = min_intensity s \<and>
     self_half_period s = self_period s / 2 \<and>
     rnd (self_half_period s) = self_half_period s \<and>
     self_intensity_delta s = rnd (max_intensity s - min_intensity s) \<and>
     self_position_factor s = rnd (1 / self_half_period s)"

section \<open>Example states\<close>

text \<open>
  A strip of five dark pixels whose flushes all succeed, and a \<^verbatim>\<open>Sparkle\<close> object on it as
  line 72 finds it: the shades unset, the base colour not yet assigned.
\<close>

definition dark_strip :: world where
  "dark_strip =
     \<lparr>pixel_object = [PyTuple [0, 0, 0], PyTuple [0, 0, 0], PyTuple [0, 0, 0],
                       PyTuple [0, 0, 0], PyTuple [0, 0, 0]],
      requests = [], show_faults = (\<lambda>k. False), entropy = (\<lambda>n. 7 * n + 2), drawn = 0,
      clock = (\<lambda>n. 250000000 * int n), clock_reads = 0\<rparr>"

definition unset_sparkle :: sparkle where
  "unset_sparkle =
     \<lparr>pixel_object = [PyTuple [0, 0, 0], PyTuple [63, 0, 0], PyTuple [0, 0, 0]],
      requests = [], show_faults = (\<lambda>k. False), entropy = (\<lambda>n. n), drawn = 0,
      clock = (\<lambda>n. int n), clock_reads = 0,
      self_color = PyNone, self_half_color = PyNone, self_dim_color = PyNone,
      self_num_sparkles = 1\<rparr>"

text \<open>
  A \<^verbatim>\<open>Sparkle\<close> whose base colour is \<open>(1, 1, 1)\<close>: its half and dim shades are both
  \<open>(0, 0, 0)\<close>, and two pixels of the strip hold that value.
\<close>

definition faint_sparkle :: sparkle where
  "faint_sparkle =
     \<lparr>pixel_object = [PyTuple [0, 0, 0], PyTuple [9, 9, 9], PyTuple [0, 0, 0]],
      requests = [], show_faults = (\<lambda>k. False), entropy = (\<lambda>n. n), drawn = 0,
      clock = (\<lambda>n. int n), clock_reads = 0,
      self_color = PyTuple [1, 1, 1],
      self_half_color = PyTuple [0, 0, 0], self_dim_color = PyTuple [0, 0, 0],
      self_num_sparkles = 1\<rparr>"

text \<open>
  A \<^verbatim>\<open>Sparkle\<close> of two red sparkles on five dark pixels, the same object on a strip whose
  first flush fails, and a strip of a single pixel.
\<close>

definition red_sparkle :: sparkle where
  "red_sparkle =
     \<lparr>pixel_object = [PyTuple [0, 0, 0], PyTuple [0, 0, 0], PyTuple [0, 0, 0],
                       PyTuple [0, 0, 0], PyTuple [0, 0, 0]],
      requests = [], show_faults = (\<lambda>k. False), entropy = (\<lambda>n. 7 * n + 2), drawn = 0,
      clock = (\<lambda>n. int n), clock_reads = 0,
      self_color = PyTuple [255, 0, 0],
      self_half_color = PyTuple [63, 0, 0], self_dim_color = PyTuple [25, 0, 0],
      self_num_sparkles = 2\<rparr>"

definition unplugged_sparkle :: sparkle where
  "unplugged_sparkle = red_sparkle\<lparr>show_faults := (\<lambda>k. k = 0)\<rparr>"

definition lone_pixel :: world where
  "lone_pixel =
     \<lparr>pixel_object = [PyTuple [0, 0, 0]],
      requests = [], show_faults = (\<lambda>k. False), entropy = (\<lambda>n. n), drawn = 0,
      clock = (\<lambda>n. int n), clock_reads = 0\<rparr>"



text \<open>
  A strip of three dark four-channel (RGBW) pixels whose clock advances one second per
  reading, and the \<^verbatim>\<open>SparklePulse\<close> its constructor returns for the three-channel colour
  \<open>(100, 100, 100)\<close>, the period 4 and the intensities 1 and 0: \<^verbatim>\<open>self._bpp\<close> is 4.
\<close>

definition rgbw_strip :: world where
  "rgbw_strip =
     \<lparr>pixel_object = [PyTuple [0, 0, 0, 0], PyTuple [0, 0, 0, 0], PyTuple [0, 0, 0, 0]],
      requests = [], show_faults = (\<lambda>k. False), entropy = (\<lambda>n. 7 * n + 2), drawn = 0,
      clock = (\<lambda>n. 1000000000 * int n), clock_reads = 0\<rparr>"

definition rgbw_pulse :: "rat sparkle_pulse" where
  "rgbw_pulse =
     \<lparr>pixel_object = [PyTuple [0, 0, 0, 0], PyTuple [0, 0, 0, 0], PyTuple [0, 0, 0, 0]],
      requests = [], show_faults = (\<lambda>k. False), entropy = (\<lambda>n. 7 * n + 2), drawn = 0,
      clock = (\<lambda>n. 1000000000 * int n), clock_reads = 1,
      self_color = PyTuple [100, 100, 100],
      max_intensity = 1, min_intensity = 0, self_period = 4,
      self_intensity_delta = 1, self_half_period = 2, self_position_factor = 1 / 2,
      self_bpp = 4, self_last_update = 0, self_cycle_position = 0,
      pulse_half_color = PyTuple [25, 25, 25], pulse_dim_color = PyTuple [10, 10, 10]\<rparr>"

section \<open>Properties of \<^verbatim>\<open>Sparkle._recompute_color\<close>\<close>

lemma repaint_requests_cong:
  "\<forall>i\<in>set idxs. b' ! i = b ! i \<Longrightarrow>
   repaint_requests oh od h d b' idxs = repaint_requests oh od h d b idxs"
  unfolding repaint_requests_def
  by (induction idxs) auto

lemma recolor_loop_run:
  "distinct idxs \<Longrightarrow> \<forall>i\<in>set idxs. i < length (pixel_object s) \<Longrightarrow>
   \<exists>b. recolor_loop idxs h d s =
         (None, s\<lparr>pixel_object := b,
                  requests := requests s @
                    repaint_requests (self_half_color s) (self_dim_color s) h d (pixel_object s) idxs\<rparr>) \<and>
       length b = length (pixel_object s) \<and>
       (\<forall>j<length (pixel_object s). b ! j =
          (if j \<in> set idxs
           then repainted (self_half_color s) (self_dim_color s) h d (pixel_object s ! j)
           else pixel_object s ! j))"
proof (induction idxs arbitrary: s)
  case Nil
  show ?case
    by (rule exI [of _ "pixel_object s"]) (simp add: repaint_requests_def)
next
  case (Cons p rest)
  let ?b = "pixel_object s"
  let ?oh = "self_half_color s"
  let ?od = "self_dim_color s"
  from Cons.prems have p: "p < length ?b" and np: "p \<notin> set rest"
    and dr: "distinct rest" and rr: "\<forall>i\<in>set rest. i < length ?b"
    by auto
  show ?case
  proof (cases "?b ! p = ?oh \<or> ?b ! p = ?od")
    case False
    from Cons.IH [OF dr rr] obtain b where
      run: "recolor_loop rest h d s =
         (None, s\<lparr>pixel_object := b,
                  requests := requests s @ repaint_requests ?oh ?od h d ?b rest\<rparr>)"
      and len: "length b = length ?b"
      and nth: "\<forall>j<length ?b. b ! j =
          (if j \<in> set rest then repainted ?oh ?od h d (?b ! j) else ?b ! j)"
      by blast
    from False p run have
      "recolor_loop (p # rest) h d s =
         (None, s\<lparr>pixel_object := b,
                  requests := requests s @ repaint_requests ?oh ?od h d ?b (p # rest)\<rparr>)"
      by (simp add: getitem_def repaint_requests_def)
    moreover from False nth have "\<forall>j<length ?b. b ! j =
          (if j \<in> set (p # rest) then repainted ?oh ?od h d (?b ! j) else ?b ! j)"
      by (auto simp: repainted_def)
    ultimately show ?thesis using len by blast
  next
    case True
    define x where "x = repainted ?oh ?od h d (?b ! p)"
    define s1 where "s1 = s\<lparr>pixel_object := ?b[p := x], requests := requests s @ [SetItem (int p) x]\<rparr>"
    have step: "recolor_loop (p # rest) h d s = recolor_loop rest h d s1"
      using True p by (auto simp: getitem_def setitem_def s1_def x_def repainted_def)
    have rr1: "\<forall>i\<in>set rest. i < length (pixel_object s1)"
      using rr by (simp add: s1_def)
    have same: "\<forall>i\<in>set rest. pixel_object s1 ! i = ?b ! i"
    proof
      fix i assume "i \<in> set rest"
      with np have "p \<noteq> i" by blast
      then show "pixel_object s1 ! i = ?b ! i" by (simp add: s1_def)
    qed
    from Cons.IH [OF dr rr1] obtain b where
      run: "recolor_loop rest h d s1 =
         (None, s1\<lparr>pixel_object := b,
                  requests := requests s1 @
                    repaint_requests (self_half_color s1) (self_dim_color s1) h d (pixel_object s1) rest\<rparr>)"
      and len: "length b = length (pixel_object s1)"
      and nth: "\<forall>j<length (pixel_object s1). b ! j =
          (if j \<in> set rest
           then repainted (self_half_color s1) (self_dim_color s1) h d (pixel_object s1 ! j)
           else pixel_object s1 ! j)"
      by blast
    have req: "repaint_requests ?oh ?od h d ?b (p # rest) =
        SetItem (int p) x # repaint_requests ?oh ?od h d (pixel_object s1) rest"
      using True repaint_requests_cong [OF same, of ?oh ?od h d]
      by (simp add: repaint_requests_def x_def)
    have "recolor_loop (p # rest) h d s =
         (None, s\<lparr>pixel_object := b,
                  requests := requests s @ repaint_requests ?oh ?od h d ?b (p # rest)\<rparr>)"
      using step run req by (simp add: s1_def)
    moreover have "length b = length ?b"
      using len by (simp add: s1_def)
    moreover have "\<forall>j<length ?b. b ! j =
          (if j \<in> set (p # rest) then repainted ?oh ?od h d (?b ! j) else ?b ! j)"
    proof (intro allI impI)
      fix j assume j: "j < length ?b"
      then have "b ! j = (if j \<in> set rest
           then repainted ?oh ?od h d (pixel_object s1 ! j) else pixel_object s1 ! j)"
        using nth by (simp add: s1_def)
      moreover have "j \<in> set rest \<Longrightarrow> pixel_object s1 ! j = ?b ! j"
        using same by blast
      moreover have "j = p \<Longrightarrow> pixel_object s1 ! j = x"
        using p by (simp add: s1_def)
      moreover have "j \<noteq> p \<Longrightarrow> pixel_object s1 ! j = ?b ! j"
        by (simp add: s1_def)
      ultimately show "b ! j =
          (if j \<in> set (p # rest) then repainted ?oh ?od h d (?b ! j) else ?b ! j)"
        using np by (auto simp: x_def)
    qed
    ultimately show ?thesis by blast
  qed
qed

lemma map_over_indices: "map (\<lambda>i. f (xs ! i)) [0..<length xs] = map f xs"
  by (rule nth_equalityI) simp_all

lemma Sparkle_recompute_color_run:
  "Sparkle_recompute_color color s =
     (None, s\<lparr>pixel_object :=
                 map (repainted (self_half_color s) (self_dim_color s) (half_of color) (dim_of color))
                   (pixel_object s),
               requests := requests s @
                 repaint_requests (self_half_color s) (self_dim_color s) (half_of color) (dim_of color)
                   (pixel_object s) [0..<length (pixel_object s)],
               self_half_color := half_of color,
               self_dim_color := dim_of color\<rparr>)"
proof -
  let ?N = "length (pixel_object s)"
  let ?f = "repainted (self_half_color s) (self_dim_color s) (half_of color) (dim_of color)"
  have "distinct [0..<?N]" and "\<forall>i\<in>set [0..<?N]. i < ?N"
    by simp_all
  from recolor_loop_run [OF this, of "half_of color" "dim_of color"]
  obtain b where
    run: "recolor_loop [0..<?N] (half_of color) (dim_of color) s =
       (None, s\<lparr>pixel_object := b,
                requests := requests s @
                  repaint_requests (self_half_color s) (self_dim_color s) (half_of color)
                    (dim_of color) (pixel_object s) [0..<?N]\<rparr>)"
    and len: "length b = ?N"
    and nth: "\<forall>j<?N. b ! j = (if j \<in> set [0..<?N] then ?f (pixel_object s ! j) else pixel_object s ! j)"
    by blast
  have "b = map ?f (pixel_object s)"
    using len nth by (intro nth_equalityI) simp_all
  with run show ?thesis
    by (simp add: Sparkle_recompute_color_def Let_def half_of_def dim_of_def
          map_over_indices [of "\<lambda>c. c div 4" color] map_over_indices [of "\<lambda>c. c div 10" color])
qed

text \<open>
  Claim C2. \<^verbatim>\<open>recompute(new_color)\<close> never fails. It computes the half shade as the
  channel-wise \<open>new_color div 4\<close> and the dim shade as \<open>new_color div 10\<close>, and stores both.
  It passes over the buffer once, in index order, assigning at most once per slot: a pixel
  equal to the previous half shade receives the new half shade; a pixel that is not, and
  equals the previous dim shade, receives the new dim shade; every other pixel is left
  alone. The two tests exclude each other: a pixel matching the previous half shade gets
  the half shade even when the previous dim shade is the same value.
\<close>

theorem recompute_color_repaints_once:
  "Sparkle_recompute_color color s =
     (None, s\<lparr>pixel_object :=
                 map (\<lambda>v. if v = self_half_color s then PyTuple (map (\<lambda>c. c div 4) color)
                          else if v = self_dim_color s then PyTuple (map (\<lambda>c. c div 10) color)
                          else v)
                   (pixel_object s),
               requests := requests s @
                 map (\<lambda>i. SetItem (int i)
                         (if pixel_object s ! i = self_half_color s
                          then PyTuple (map (\<lambda>c. c div 4) color)
                          else PyTuple (map (\<lambda>c. c div 10) color)))
                   (filter (\<lambda>i. pixel_object s ! i = self_half_color s \<or>
                                 pixel_object s ! i = self_dim_color s)
                      [0..<length (pixel_object s)]),
               self_half_color := PyTuple (map (\<lambda>c. c div 4) color),
               self_dim_color := PyTuple (map (\<lambda>c. c div 10) color)\<rparr>)"
proof -
  have a: "repainted (self_half_color s) (self_dim_color s) (PyTuple (map (\<lambda>c. c div 4) color)) (PyTuple (map (\<lambda>c. c div 10) color)) =
      (\<lambda>v. if v = self_half_color s then PyTuple (map (\<lambda>c. c div 4) color)
                          else if v = self_dim_color s then PyTuple (map (\<lambda>c. c div 10) color)
                          else v)"
    by (simp add: repainted_def fun_eq_iff)
  have b: "repaint_requests (self_half_color s) (self_dim_color s) (PyTuple (map (\<lambda>c. c div 4) color)) (PyTuple (map (\<lambda>c. c div 10) color))
                   (pixel_object s) [0..<length (pixel_object s)] =
     map (\<lambda>i. SetItem (int i)
                         (if pixel_object s ! i = self_half_color s
                          then PyTuple (map (\<lambda>c. c div 4) color)
                          else PyTuple (map (\<lambda>c. c div 10) color)))
                   (filter (\<lambda>i. pixel_object s ! i = self_half_color s \<or>
                                 pixel_object s ! i = self_dim_color s)
                      [0..<length (pixel_object s)])"
    unfolding repaint_requests_def
    by (rule map_cong) (auto simp: repainted_def)
  show ?thesis
    by (simp only: Sparkle_recompute_color_run half_of_def dim_of_def a b)
qed

theorem recompute_color_repaints_once_witness:
  "Sparkle_recompute_color [40, 40, 40] faint_sparkle =
     (None, faint_sparkle
        \<lparr>pixel_object := [PyTuple [10, 10, 10], PyTuple [9, 9, 9], PyTuple [10, 10, 10]],
         requests := [SetItem 0 (PyTuple [10, 10, 10]), SetItem 2 (PyTuple [10, 10, 10])],
         self_half_color := PyTuple [10, 10, 10],
         self_dim_color := PyTuple [4, 4, 4]\<rparr>)"
  using recompute_color_repaints_once [of "[40, 40, 40]" faint_sparkle]
  by (simp add: faint_sparkle_def upt_rec)

text \<open>
  Claim C7. For every buffer and every colour, a second \<^verbatim>\<open>recompute(color)\<close> right after
  a first one with the same colour succeeds and leaves the buffer contents as the first
  call left them.
\<close>

theorem recompute_color_twice:
  "fst (Sparkle_recompute_color color (snd (Sparkle_recompute_color color s))) = None \<and>
   pixel_object (snd (Sparkle_recompute_color color (snd (Sparkle_recompute_color color s)))) =
     pixel_object (snd (Sparkle_recompute_color color s))"
proof -
  define s1 where "s1 = snd (Sparkle_recompute_color color s)"
  have h: "self_half_color s1 = half_of color" and d: "self_dim_color s1 = dim_of color"
    by (simp_all add: s1_def Sparkle_recompute_color_run)
  have "repainted (half_of color) (dim_of color) (half_of color) (dim_of color) = (\<lambda>v. v)"
    by (simp add: repainted_def fun_eq_iff)
  then have "pixel_object (snd (Sparkle_recompute_color color s1)) = pixel_object s1"
    by (simp add: Sparkle_recompute_color_run h d)
  moreover have "fst (Sparkle_recompute_color color s1) = None"
    by (simp add: Sparkle_recompute_color_run)
  ultimately show ?thesis by (simp add: s1_def)
qed

text \<open>
  Claim C10. When the stored half and dim shades are both still \<^verbatim>\<open>None\<close> and no pixel of
  the buffer is \<^verbatim>\<open>None\<close>, \<^verbatim>\<open>recompute\<close> changes nothing but the two stored shades: the
  buffer keeps every pixel, no assignment is sent, and the new half and dim shades are
  installed.
\<close>

theorem first_recompute_only_installs:
  assumes "self_half_color s = PyNone" and "self_dim_color s = PyNone"
    and "PyNone \<notin> set (pixel_object s)"
  shows "Sparkle_recompute_color color s =
     (None, s\<lparr>self_half_color := PyTuple (map (\<lambda>c. c div 4) color),
               self_dim_color := PyTuple (map (\<lambda>c. c div 10) color)\<rparr>)"
proof -
  have keep: "map (repainted PyNone PyNone (half_of color) (dim_of color)) (pixel_object s) =
      pixel_object s"
    using assms(3) by (intro map_idI) (auto simp: repainted_def)
  have none: "repaint_requests PyNone PyNone (half_of color) (dim_of color) (pixel_object s)
      [0..<length (pixel_object s)] = []"
    using assms(3) by (auto simp: repaint_requests_def filter_empty_conv) (metis nth_mem)
  show ?thesis
    using Sparkle_recompute_color_run [of color s] assms(1,2) keep none
    by (simp add: half_of_def dim_of_def)
qed

theorem first_recompute_only_installs_witness:
  "self_half_color unset_sparkle = PyNone \<and> self_dim_color unset_sparkle = PyNone \<and>
   PyNone \<notin> set (pixel_object unset_sparkle) \<and>
   Sparkle_recompute_color [255, 0, 0] unset_sparkle =
     (None, unset_sparkle\<lparr>self_half_color := PyTuple [63, 0, 0],
                           self_dim_color := PyTuple [25, 0, 0]\<rparr>)"
  using first_recompute_only_installs [of unset_sparkle "[255, 0, 0]"]
  by (simp add: unset_sparkle_def)

section \<open>Properties of \<^verbatim>\<open>Sparkle.draw\<close>\<close>

lemma chosen_pixels_Suc:
  "chosen_pixels (Suc n) s =
     int (entropy s (drawn s) mod (length (pixel_object s) - 1)) #
     chosen_pixels n (s\<lparr>drawn := drawn s + 1\<rparr>)"
  by (simp add: chosen_pixels_def upt_conv_Cons map_Suc_upt [symmetric] del: upt_Suc)

lemma chosen_pixels_range:
  "2 \<le> length (pixel_object s) \<Longrightarrow> p \<in> set (chosen_pixels n s) \<Longrightarrow>
   0 \<le> p \<and> p \<le> int (length (pixel_object s)) - 2"
proof -
  assume N: "2 \<le> length (pixel_object s)" and "p \<in> set (chosen_pixels n s)"
  then obtain k where p: "p = int (entropy s (drawn s + k) mod (length (pixel_object s) - 1))"
    by (auto simp: chosen_pixels_def)
  have "entropy s (drawn s + k) mod (length (pixel_object s) - 1) < length (pixel_object s) - 1"
    using N by (intro mod_less_divisor) simp
  with p N show ?thesis by linarith
qed

lemma length_chosen_pixels: "length (chosen_pixels n s) = n"
  by (simp add: chosen_pixels_def)

lemma random_pixels_run:
  "2 \<le> length (pixel_object s) \<Longrightarrow>
   random_pixels n s = (Inr (chosen_pixels n s), s\<lparr>drawn := drawn s + n\<rparr>)"
proof (induction n arbitrary: s)
  case 0
  then show ?case by (simp add: chosen_pixels_def)
next
  case (Suc n)
  let ?s1 = "s\<lparr>drawn := drawn s + 1\<rparr>"
  have r: "randint 0 (int (length (pixel_object s)) - 2) s =
      (Inr (int (entropy s (drawn s) mod (length (pixel_object s) - 1))), ?s1)"
    using Suc.prems by (simp add: randint_def nat_diff_distrib' algebra_simps)
  have "2 \<le> length (pixel_object ?s1)" using Suc.prems by simp
  from Suc.IH [OF this] r show ?case
    by (simp add: chosen_pixels_Suc)
qed

lemma light_loop_run:
  "\<forall>p\<in>set pixels. 0 \<le> p \<and> p < int (length (pixel_object s)) \<Longrightarrow>
   light_loop pixels s =
     (None, s\<lparr>pixel_object := lit (self_color s) pixels (pixel_object s),
               requests := requests s @ light_requests (self_color s) pixels\<rparr>)"
proof (induction pixels arbitrary: s)
  case Nil
  then show ?case by (simp add: lit_def light_requests_def)
next
  case (Cons p rest)
  let ?s1 = "s\<lparr>pixel_object := (pixel_object s)[nat p := self_color s],
                requests := requests s @ [SetItem p (self_color s)]\<rparr>"
  have st: "setitem p (self_color s) s = (None, ?s1)"
    using Cons.prems by (simp add: setitem_def)
  have "\<forall>q\<in>set rest. 0 \<le> q \<and> q < int (length (pixel_object ?s1))"
    using Cons.prems by simp
  from Cons.IH [OF this] st show ?case
    by (simp add: lit_def light_requests_def)
qed

lemma decay_loop_run:
  "\<forall>p\<in>set pixels. 0 \<le> p \<and> p + 1 < int (length (pixel_object s)) \<Longrightarrow>
   decay_loop pixels s =
     (None, s\<lparr>pixel_object :=
                 decayed (self_half_color s) (self_dim_color s) pixels (pixel_object s),
               requests := requests s @
                 decay_requests (self_half_color s) (self_dim_color s) pixels\<rparr>)"
proof (induction pixels arbitrary: s)
  case Nil
  then show ?case by (simp add: decayed_def decay_requests_def)
next
  case (Cons p rest)
  let ?h = "self_half_color s" and ?d = "self_dim_color s"
  let ?s1 = "s\<lparr>pixel_object := (pixel_object s)[nat p := ?h],
                requests := requests s @ [SetItem p ?h]\<rparr>"
  let ?s2 = "s\<lparr>pixel_object := (pixel_object s)[nat p := ?h, nat (p + 1) := ?d],
                requests := requests s @ [SetItem p ?h, SetItem (p + 1) ?d]\<rparr>"
  have st1: "setitem p ?h s = (None, ?s1)"
    using Cons.prems by (simp add: setitem_def)
  have st2: "setitem (p + 1) (self_dim_color ?s1) ?s1 = (None, ?s2)"
    using Cons.prems by (simp add: setitem_def)
  have "\<forall>q\<in>set rest. 0 \<le> q \<and> q + 1 < int (length (pixel_object ?s2))"
    using Cons.prems by simp
  from Cons.IH [OF this] st1 st2 show ?case
    by (simp add: decayed_def decay_requests_def)
qed

lemma length_lit: "length (lit c pixels b) = length b"
  unfolding lit_def by (induction pixels arbitrary: b) simp_all

lemma length_decayed: "length (decayed h d pixels b) = length b"
  unfolding decayed_def by (induction pixels arbitrary: b) simp_all

lemma lit_nth:
  "j < length b \<Longrightarrow> lit c pixels b ! j = (if j \<in> nat ` set pixels then c else b ! j)"
  unfolding lit_def
proof (induction pixels arbitrary: b)
  case Nil
  then show ?case by simp
next
  case (Cons p rest)
  from Cons.prems have "j < length (b[nat p := c])" by simp
  from Cons.IH [OF this] Cons.prems show ?case
    by (auto simp: nth_list_update)
qed

lemma count_light_requests: "count_list (light_requests c pixels) Show = 0"
  unfolding light_requests_def by (induction pixels) simp_all

lemma count_decay_requests: "count_list (decay_requests h d pixels) Show = 0"
  unfolding decay_requests_def by (induction pixels) simp_all

lemma count_repaint_requests: "count_list (repaint_requests oh od h d b idxs) Show = 0"
  unfolding repaint_requests_def by (induction idxs) simp_all

lemma Sparkle_draw_first_flush_fails:
  assumes N: "2 \<le> length (pixel_object s)"
    and fault: "show_faults s (count_list (requests s) Show)"
  shows "Sparkle_draw s =
     (Some IOError,
      s\<lparr>pixel_object :=
          lit (self_color s) (chosen_pixels (nat (self_num_sparkles s)) s) (pixel_object s),
        requests := requests s @
          light_requests (self_color s) (chosen_pixels (nat (self_num_sparkles s)) s) @ [Show],
        drawn := drawn s + nat (self_num_sparkles s)\<rparr>)"
proof -
  let ?n = "nat (self_num_sparkles s)"
  let ?ps = "chosen_pixels ?n s"
  let ?s1 = "s\<lparr>drawn := drawn s + ?n\<rparr>"
  let ?s2 = "?s1\<lparr>pixel_object := lit (self_color ?s1) ?ps (pixel_object ?s1),
               requests := requests ?s1 @ light_requests (self_color ?s1) ?ps\<rparr>"
  have r: "random_pixels ?n s = (Inr ?ps, ?s1)"
    using N by (rule random_pixels_run)
  have "\<forall>p\<in>set ?ps. 0 \<le> p \<and> p < int (length (pixel_object ?s1))"
    using chosen_pixels_range [OF N] by fastforce
  then have l: "light_loop ?ps ?s1 = (None, ?s2)"
    by (rule light_loop_run)
  have f: "Animation_show ?s2 = (Some IOError, ?s2\<lparr>requests := requests ?s2 @ [Show]\<rparr>)"
    using fault by (simp add: Animation_show_def count_light_requests)
  show ?thesis
    apply (simp only: Sparkle_draw_def r prod.case sum.case)
    apply (simp only: l prod.case option.case)
    apply (simp only: f prod.case option.case)
    apply simp
    done
qed

lemma Sparkle_draw_first_flush_succeeds:
  assumes N: "2 \<le> length (pixel_object s)"
    and ok: "\<not> show_faults s (count_list (requests s) Show)"
  shows "Sparkle_draw s =
     (if show_faults s (Suc (count_list (requests s) Show)) then Some IOError else None,
      s\<lparr>pixel_object :=
          decayed (self_half_color s) (self_dim_color s)
            (chosen_pixels (nat (self_num_sparkles s)) s)
            (lit (self_color s) (chosen_pixels (nat (self_num_sparkles s)) s) (pixel_object s)),
        requests := requests s @
          light_requests (self_color s) (chosen_pixels (nat (self_num_sparkles s)) s) @ [Show] @
          decay_requests (self_half_color s) (self_dim_color s)
            (chosen_pixels (nat (self_num_sparkles s)) s) @ [Show],
        drawn := drawn s + nat (self_num_sparkles s)\<rparr>)"
proof -
  let ?n = "nat (self_num_sparkles s)"
  let ?ps = "chosen_pixels ?n s"
  let ?s1 = "s\<lparr>drawn := drawn s + ?n\<rparr>"
  let ?s2 = "?s1\<lparr>pixel_object := lit (self_color ?s1) ?ps (pixel_object ?s1),
               requests := requests ?s1 @ light_requests (self_color ?s1) ?ps\<rparr>"
  let ?s3 = "?s2\<lparr>requests := requests ?s2 @ [Show]\<rparr>"
  let ?s4 = "?s3\<lparr>pixel_object :=
                 decayed (self_half_color ?s3) (self_dim_color ?s3) ?ps (pixel_object ?s3),
               requests := requests ?s3 @
                 decay_requests (self_half_color ?s3) (self_dim_color ?s3) ?ps\<rparr>"
  have r: "random_pixels ?n s = (Inr ?ps, ?s1)"
    using N by (rule random_pixels_run)
  have rng: "\<forall>p\<in>set ?ps. 0 \<le> p \<and> p \<le> int (length (pixel_object s)) - 2"
    using chosen_pixels_range [OF N] by blast
  have "\<forall>p\<in>set ?ps. 0 \<le> p \<and> p < int (length (pixel_object ?s1))"
    using rng by fastforce
  then have l: "light_loop ?ps ?s1 = (None, ?s2)"
    by (rule light_loop_run)
  have f: "Animation_show ?s2 = (None, ?s3)"
    using ok by (simp add: Animation_show_def count_light_requests)
  have "\<forall>p\<in>set ?ps. 0 \<le> p \<and> p + 1 < int (length (pixel_object ?s3))"
    using rng by (fastforce simp: length_lit)
  then have d: "decay_loop ?ps ?s3 = (None, ?s4)"
    by (rule decay_loop_run)
  have g: "Animation_show ?s4 =
      (if show_faults s (Suc (count_list (requests s) Show)) then Some IOError else None,
       ?s4\<lparr>requests := requests ?s4 @ [Show]\<rparr>)"
    by (simp add: Animation_show_def count_light_requests count_decay_requests)
  show ?thesis
    apply (simp only: Sparkle_draw_def r prod.case sum.case)
    apply (simp only: l prod.case option.case)
    apply (simp only: f prod.case option.case)
    apply (simp only: d prod.case option.case)
    apply (simp only: g)
    apply simp
    done
qed

lemma chosen_two_red: "chosen_pixels 2 red_sparkle = [2, 1]"
  by (simp add: chosen_pixels_def red_sparkle_def upt_rec)

lemma list_all_light_requests:
  "list_all (\<lambda>p. 0 \<le> p \<and> p \<le> int N - 2) pixels \<Longrightarrow>
   list_all (in_bounds N) (light_requests c pixels)"
  unfolding light_requests_def
  by (induction pixels) (auto simp: in_bounds_def)

lemma list_all_decay_requests:
  "list_all (\<lambda>p. 0 \<le> p \<and> p \<le> int N - 2) pixels \<Longrightarrow>
   list_all (in_bounds N) (decay_requests h d pixels)"
  unfolding decay_requests_def
  by (induction pixels) (auto simp: in_bounds_def)

lemma list_all_chosen_pixels:
  "2 \<le> length (pixel_object s) \<Longrightarrow>
   list_all (\<lambda>p. 0 \<le> p \<and> p \<le> int (length (pixel_object s)) - 2) (chosen_pixels n s)"
  using chosen_pixels_range [of s] by (auto simp: list_all_iff)

text \<open>
  Claim C1. On a buffer of at least two pixels, for any number of sparkles (a negative
  count behaves as zero), a \<^verbatim>\<open>draw()\<close> whose first flush does not fail sends exactly two
  flush requests: the first after the base-colour assignments, the second after the
  half and dim assignments. The call returns normally unless the second flush fails.
  What happens when the first flush fails is claim C8.
\<close>

theorem draw_issues_two_flushes:
  assumes "2 \<le> length (pixel_object s)"
    and "\<not> show_faults s (count_list (requests s) Show)"
  shows "requests (snd (Sparkle_draw s)) =
           requests s @
           map (\<lambda>pixel. SetItem pixel (self_color s))
             (chosen_pixels (nat (self_num_sparkles s)) s) @
           [Show] @
           concat (map (\<lambda>pixel. [SetItem pixel (self_half_color s),
                                 SetItem (pixel + 1) (self_dim_color s)])
             (chosen_pixels (nat (self_num_sparkles s)) s)) @
           [Show] \<and>
         count_list (requests (snd (Sparkle_draw s))) Show =
           count_list (requests s) Show + 2 \<and>
         fst (Sparkle_draw s) =
           (if show_faults s (Suc (count_list (requests s) Show)) then Some IOError else None)"
proof -
  note run = Sparkle_draw_first_flush_succeeds [OF assms]
  have "count_list (requests (snd (Sparkle_draw s))) Show = count_list (requests s) Show + 2"
    by (simp add: run count_light_requests count_decay_requests)
  then show ?thesis
    by (simp add: run light_requests_def decay_requests_def)
qed

theorem draw_issues_two_flushes_witness:
  "2 \<le> length (pixel_object red_sparkle) \<and>
   \<not> show_faults red_sparkle (count_list (requests red_sparkle) Show) \<and>
   requests (snd (Sparkle_draw red_sparkle)) =
     [SetItem 2 (PyTuple [255, 0, 0]), SetItem 1 (PyTuple [255, 0, 0]), Show,
      SetItem 2 (PyTuple [63, 0, 0]), SetItem 3 (PyTuple [25, 0, 0]),
      SetItem 1 (PyTuple [63, 0, 0]), SetItem 2 (PyTuple [25, 0, 0]), Show] \<and>
   count_list (requests (snd (Sparkle_draw red_sparkle))) Show = 2 \<and>
   fst (Sparkle_draw red_sparkle) = None"
proof -
  have a: "2 \<le> length (pixel_object red_sparkle)"
    and b: "\<not> show_faults red_sparkle (count_list (requests red_sparkle) Show)"
    and c: "\<not> show_faults red_sparkle (Suc (count_list (requests red_sparkle) Show))"
    and n: "nat (self_num_sparkles red_sparkle) = 2"
    by (simp_all add: red_sparkle_def)
  from draw_issues_two_flushes [OF a b] a b c show ?thesis
    by (simp add: n chosen_two_red) (simp add: red_sparkle_def)
qed

text \<open>
  Claim C8. On a buffer of at least two pixels, when the first flush of \<^verbatim>\<open>draw()\<close> fails
  the call ends with that \<open>IOError\<close>: the log holds the base-colour assignments and one
  flush request, so no half or dim assignment and no second flush was made; the buffer
  is the old one with the base colour at each chosen index.
\<close>

theorem first_flush_failure_stops_draw:
  assumes "2 \<le> length (pixel_object s)"
    and "show_faults s (count_list (requests s) Show)"
  shows "fst (Sparkle_draw s) = Some IOError \<and>
         requests (snd (Sparkle_draw s)) =
           requests s @
           map (\<lambda>pixel. SetItem pixel (self_color s))
             (chosen_pixels (nat (self_num_sparkles s)) s) @
           [Show] \<and>
         pixel_object (snd (Sparkle_draw s)) =
           fold (\<lambda>pixel b. b[nat pixel := self_color s])
             (chosen_pixels (nat (self_num_sparkles s)) s) (pixel_object s) \<and>
         list_all (\<lambda>pixel. pixel_object (snd (Sparkle_draw s)) ! nat pixel = self_color s)
           (chosen_pixels (nat (self_num_sparkles s)) s)"
proof -
  let ?ps = "chosen_pixels (nat (self_num_sparkles s)) s"
  note run = Sparkle_draw_first_flush_fails [OF assms]
  have "lit (self_color s) ?ps (pixel_object s) ! nat p = self_color s" if "p \<in> set ?ps" for p
  proof -
    from chosen_pixels_range [OF assms(1) that] have "nat p < length (pixel_object s)"
      by linarith
    from lit_nth [OF this, of "self_color s" ?ps] that show ?thesis by simp
  qed
  then have "list_all (\<lambda>pixel. pixel_object (snd (Sparkle_draw s)) ! nat pixel = self_color s) ?ps"
    by (simp add: run list_all_iff)
  then show ?thesis
    by (simp add: run light_requests_def lit_def)
qed

theorem first_flush_failure_stops_draw_witness:
  "2 \<le> length (pixel_object unplugged_sparkle) \<and>
   show_faults unplugged_sparkle (count_list (requests unplugged_sparkle) Show) \<and>
   fst (Sparkle_draw unplugged_sparkle) = Some IOError \<and>
   requests (snd (Sparkle_draw unplugged_sparkle)) =
     [SetItem 2 (PyTuple [255, 0, 0]), SetItem 1 (PyTuple [255, 0, 0]), Show] \<and>
   pixel_object (snd (Sparkle_draw unplugged_sparkle)) =
     [PyTuple [0, 0, 0], PyTuple [255, 0, 0], PyTuple [255, 0, 0],
      PyTuple [0, 0, 0], PyTuple [0, 0, 0]]"
proof -
  have a: "2 \<le> length (pixel_object unplugged_sparkle)"
    and b: "show_faults unplugged_sparkle (count_list (requests unplugged_sparkle) Show)"
    and n: "nat (self_num_sparkles unplugged_sparkle) = 2"
    by (simp_all add: unplugged_sparkle_def red_sparkle_def)
  have c: "chosen_pixels 2 unplugged_sparkle = [2, 1]"
    by (simp add: chosen_pixels_def unplugged_sparkle_def red_sparkle_def upt_rec)
  from first_flush_failure_stops_draw [OF a b] a b show ?thesis
    by (simp add: n c) (simp add: unplugged_sparkle_def red_sparkle_def)
qed

text \<open>
  Claim C9. On a buffer of \<open>N \<ge> 2\<close> pixels, for any number of sparkles and whatever the
  flushes do, the indices chosen by \<^verbatim>\<open>draw()\<close> all lie in \<open>[0, N - 2]\<close>, every assignment
  the call sends has its index in \<open>[0, N - 1]\<close>, no \<open>IndexError\<close> comes out, and the buffer
  keeps its length.
\<close>

theorem draw_stays_in_bounds:
  assumes "2 \<le> length (pixel_object s)"
  shows "fst (random_pixels (nat (self_num_sparkles s)) s) =
           Inr (chosen_pixels (nat (self_num_sparkles s)) s) \<and>
         list_all (\<lambda>pixel. 0 \<le> pixel \<and> pixel \<le> int (length (pixel_object s)) - 2)
           (chosen_pixels (nat (self_num_sparkles s)) s) \<and>
         list_all (in_bounds (length (pixel_object s)))
           (drop (length (requests s)) (requests (snd (Sparkle_draw s)))) \<and>
         fst (Sparkle_draw s) \<noteq> Some IndexError \<and>
         length (pixel_object (snd (Sparkle_draw s))) = length (pixel_object s)"
proof -
  let ?ps = "chosen_pixels (nat (self_num_sparkles s)) s"
  let ?N = "length (pixel_object s)"
  have rng: "list_all (\<lambda>pixel. 0 \<le> pixel \<and> pixel \<le> int ?N - 2) ?ps"
    using assms by (rule list_all_chosen_pixels)
  have l: "list_all (in_bounds ?N) (light_requests (self_color s) ?ps)"
    using rng by (rule list_all_light_requests)
  have d: "list_all (in_bounds ?N) (decay_requests (self_half_color s) (self_dim_color s) ?ps)"
    using rng by (rule list_all_decay_requests)
  have r: "fst (random_pixels (nat (self_num_sparkles s)) s) = Inr ?ps"
    by (simp add: random_pixels_run [OF assms])
  show ?thesis
  proof (cases "show_faults s (count_list (requests s) Show)")
    case True
    note run = Sparkle_draw_first_flush_fails [OF assms True]
    from r rng l show ?thesis
      by (simp add: run length_lit in_bounds_def)
  next
    case False
    note run = Sparkle_draw_first_flush_succeeds [OF assms False]
    from r rng l d show ?thesis
      by (simp add: run length_lit length_decayed in_bounds_def)
  qed
qed

theorem draw_stays_in_bounds_witness:
  "2 \<le> length (pixel_object red_sparkle) \<and>
   fst (random_pixels 2 red_sparkle) = Inr [2, 1] \<and>
   list_all (in_bounds 5)
     (drop (length (requests red_sparkle)) (requests (snd (Sparkle_draw red_sparkle)))) \<and>
   fst (Sparkle_draw red_sparkle) \<noteq> Some IndexError \<and>
   length (pixel_object (snd (Sparkle_draw red_sparkle))) = 5"
proof -
  have a: "2 \<le> length (pixel_object red_sparkle)"
    and n: "nat (self_num_sparkles red_sparkle) = 2"
    and m: "length (pixel_object red_sparkle) = 5"
    by (simp_all add: red_sparkle_def)
  from draw_stays_in_bounds [OF a] a show ?thesis
    by (simp add: n m chosen_two_red)
qed

section \<open>Construction\<close>

lemma Sparkle_init_run:
  assumes "2 \<le> length (pixel_object w)"
  shows "Sparkle_init w color num_sparkles =
     Inr \<lparr>pixel_object =
            map (repainted PyNone PyNone (half_of color) (dim_of color)) (pixel_object w),
          requests = requests w @
            repaint_requests PyNone PyNone (half_of color) (dim_of color) (pixel_object w)
              [0..<length (pixel_object w)],
          show_faults = show_faults w, entropy = entropy w, drawn = drawn w,
          clock = clock w, clock_reads = clock_reads w,
          self_color = PyTuple color,
          self_half_color = half_of color, self_dim_color = dim_of color,
          self_num_sparkles = num_sparkles\<rparr>"
  using assms
  by (simp add: Sparkle_init_def Animation_init_def Sparkle_recompute_color_run)

text \<open>
  Claim C6. On any buffer of five pixels whose next two flushes succeed, constructing
  \<^verbatim>\<open>Sparkle\<close> with colour \<open>(255, 0, 0)\<close> and one sparkle succeeds, and one \<^verbatim>\<open>draw()\<close> then
  sends exactly these requests for one index \<open>i\<close> in \<open>[0, 3]\<close>: pixel \<open>i\<close> to
  \<open>(255, 0, 0)\<close>, flush, pixel \<open>i\<close> to \<open>(63, 0, 0)\<close>, pixel \<open>i + 1\<close> to \<open>(25, 0, 0)\<close>, flush.
\<close>

theorem scenario_one_draw:
  assumes "length (pixel_object w) = 5"
    and "\<not> show_faults w (count_list (requests w) Show)"
    and "\<not> show_faults w (Suc (count_list (requests w) Show))"
  shows "\<exists>s i. Sparkle_init w [255, 0, 0] 1 = Inr s \<and> 0 \<le> i \<and> i \<le> 3 \<and>
           fst (Sparkle_draw s) = None \<and>
           requests (snd (Sparkle_draw s)) =
             requests s @
             [SetItem i (PyTuple [255, 0, 0]), Show,
              SetItem i (PyTuple [63, 0, 0]), SetItem (i + 1) (PyTuple [25, 0, 0]), Show] \<and>
           pixel_object (snd (Sparkle_draw s)) =
             (pixel_object s)[nat i := PyTuple [63, 0, 0], nat (i + 1) := PyTuple [25, 0, 0]]"
proof -
  define s where "s =
     \<lparr>pixel_object =
        map (repainted PyNone PyNone (half_of [255, 0, 0]) (dim_of [255, 0, 0])) (pixel_object w),
      requests = requests w @
        repaint_requests PyNone PyNone (half_of [255, 0, 0]) (dim_of [255, 0, 0]) (pixel_object w)
          [0..<length (pixel_object w)],
      show_faults = show_faults w, entropy = entropy w, drawn = drawn w,
      clock = clock w, clock_reads = clock_reads w,
      self_color = PyTuple [255, 0, 0],
      self_half_color = half_of [255, 0, 0], self_dim_color = dim_of [255, 0, 0],
      self_num_sparkles = 1\<rparr>"
  define i where "i = int (entropy w (drawn w) mod 4)"
  have init: "Sparkle_init w [255, 0, 0] 1 = Inr s"
    using assms(1) by (simp add: Sparkle_init_run s_def)
  have N: "2 \<le> length (pixel_object s)"
    using assms(1) by (simp add: s_def)
  have ok: "\<not> show_faults s (count_list (requests s) Show)"
    using assms(2) by (simp add: s_def count_repaint_requests)
  have ok2: "\<not> show_faults s (Suc (count_list (requests s) Show))"
    using assms(3) by (simp add: s_def count_repaint_requests)
  have ps: "chosen_pixels (nat (self_num_sparkles s)) s = [i]"
    using assms(1) by (simp add: chosen_pixels_def s_def i_def)
  have shades: "self_color s = PyTuple [255, 0, 0]" "self_half_color s = PyTuple [63, 0, 0]"
    "self_dim_color s = PyTuple [25, 0, 0]"
    by (simp_all add: s_def half_of_def dim_of_def)
  have i: "0 \<le> i \<and> i \<le> 3"
    unfolding i_def by (simp add: nat_less_iff)
  have run: "fst (Sparkle_draw s) = None \<and>
           requests (snd (Sparkle_draw s)) =
             requests s @
             [SetItem i (PyTuple [255, 0, 0]), Show,
              SetItem i (PyTuple [63, 0, 0]), SetItem (i + 1) (PyTuple [25, 0, 0]), Show] \<and>
           pixel_object (snd (Sparkle_draw s)) =
             (pixel_object s)[nat i := PyTuple [63, 0, 0], nat (i + 1) := PyTuple [25, 0, 0]]"
    using ok2
    by (simp add: Sparkle_draw_first_flush_succeeds [OF N ok] ps shades
        light_requests_def decay_requests_def lit_def decayed_def)
  from init i run show ?thesis by blast
qed

theorem scenario_one_draw_witness:
  "length (pixel_object dark_strip) = 5 \<and>
   \<not> show_faults dark_strip (count_list (requests dark_strip) Show) \<and>
   \<not> show_faults dark_strip (Suc (count_list (requests dark_strip) Show)) \<and>
   (\<exists>s i. Sparkle_init dark_strip [255, 0, 0] 1 = Inr s \<and> 0 \<le> i \<and> i \<le> 3 \<and>
           fst (Sparkle_draw s) = None \<and>
           requests (snd (Sparkle_draw s)) =
             requests s @
             [SetItem i (PyTuple [255, 0, 0]), Show,
              SetItem i (PyTuple [63, 0, 0]), SetItem (i + 1) (PyTuple [25, 0, 0]), Show] \<and>
           pixel_object (snd (Sparkle_draw s)) =
             (pixel_object s)[nat i := PyTuple [63, 0, 0], nat (i + 1) := PyTuple [25, 0, 0]])"
proof -
  have a: "length (pixel_object dark_strip) = 5"
    and b: "\<not> show_faults dark_strip (count_list (requests dark_strip) Show)"
    and c: "\<not> show_faults dark_strip (Suc (count_list (requests dark_strip) Show))"
    by (simp_all add: dark_strip_def)
  from scenario_one_draw [OF a b c] a b c show ?thesis by blast
qed

text \<open>
  Claim C4. Constructing \<^verbatim>\<open>Sparkle\<close> or \<^verbatim>\<open>SparklePulse\<close> on a buffer of fewer than two
  pixels yields no object but the error of lines 68 and 116, \<^verbatim>\<open>ValueError\<close> with the
  message \<^verbatim>\<open>Sparkle needs at least 2 pixels\<close> (the specification's \<^verbatim>\<open>InvalidConfiguration\<close>),
  whatever the other arguments are; with no object there is nothing to call \<^verbatim>\<open>draw()\<close> on.
\<close>

theorem short_buffer_rejected:
  assumes "length (pixel_object w) < 2"
  shows "Sparkle_init w color num_sparkles =
           Inl (ValueError ''Sparkle needs at least 2 pixels'') \<and>
         SparklePulse_init ops w color period max_intensity' min_intensity' =
           Inl (ValueError ''Sparkle needs at least 2 pixels'')"
  using assms by (simp add: Sparkle_init_def SparklePulse_init_def)

theorem short_buffer_rejected_witness:
  "length (pixel_object lone_pixel) < 2 \<and>
   Sparkle_init lone_pixel [255, 0, 0] 1 =
     Inl (ValueError ''Sparkle needs at least 2 pixels'') \<and>
   SparklePulse_init exact_arith lone_pixel [255, 0, 0] 5 1 0 =
     Inl (ValueError ''Sparkle needs at least 2 pixels'')"
proof -
  have a: "length (pixel_object lone_pixel) < 2"
    by (simp add: lone_pixel_def)
  from short_buffer_rejected
         [OF a, where color = "[255, 0, 0]" and num_sparkles = 1 and ops = exact_arith
            and period = 5 and max_intensity' = 1 and min_intensity' = 0]
       a
  show ?thesis by simp
qed

section \<open>Properties of \<^verbatim>\<open>SparklePulse.draw\<close>\<close>

lemma advance_cycle_frame:
  "advance_cycle ops s = (r, s') \<Longrightarrow>
   pixel_object s' = pixel_object s \<and> requests s' = requests s \<and>
   show_faults s' = show_faults s \<and> self_color s' = self_color s \<and>
   self_bpp s' = self_bpp s"
  by (auto simp: advance_cycle_def monotonic_ns_def Let_def split: sum.splits)

lemma scaled_channels_Inr:
  "scaled_channels ops color intensity ns = Inr vs \<Longrightarrow>
   list_all2 (\<lambda>n v. \<exists>c. channel color n = Inr c \<and>
                 int_n ops (mul_n ops (of_int_n ops c) intensity) = Inr v) ns vs"
  by (induction ns arbitrary: vs) (auto split: sum.splits)

text \<open>
  For any arithmetic: on a buffer of \<open>N \<ge> 2\<close> pixels, once lines 144 to 155 have raised
  nothing, \<^verbatim>\<open>draw()\<close> assigns the scaled colour to the one index \<^verbatim>\<open>randint(0, N - 2)\<close>
  returned, leaves every other slot alone and sends one flush request.
\<close>

lemma pulse_draw_frame:
  assumes N: "2 \<le> length (pixel_object s)"
    and cycle: "advance_cycle ops (s\<lparr>drawn := drawn s + 1\<rparr>) = (Inr pos, s2)"
    and scale: "scaled_channels ops (self_color s) (pulse_intensity ops s2 pos)
                  [0..<self_bpp s] = Inr color"
  shows "\<exists>pixel. 0 \<le> pixel \<and> pixel \<le> int (length (pixel_object s)) - 2 \<and>
           fst (randint 0 (int (length (pixel_object s)) - 2) s) = Inr pixel \<and>
           SparklePulse_draw ops s =
             (if show_faults s (count_list (requests s) Show) then Some IOError else None,
              s2\<lparr>pixel_object := (pixel_object s)[nat pixel := PyList color],
                 requests := requests s @ [SetItem pixel (PyList color), Show]\<rparr>) \<and>
           list_all2 (\<lambda>n v. \<exists>c. channel (self_color s) n = Inr c \<and>
               int_n ops (mul_n ops (of_int_n ops c) (pulse_intensity ops s2 pos)) = Inr v)
             [0..<self_bpp s] color"
proof -
  let ?N = "length (pixel_object s)"
  let ?s1 = "s\<lparr>drawn := drawn s + 1\<rparr>"
  define pixel where "pixel = int (entropy s (drawn s) mod (?N - 1))"
  have "entropy s (drawn s) mod (?N - 1) < ?N - 1"
    using N by (intro mod_less_divisor) simp
  then have rng: "0 \<le> pixel \<and> pixel \<le> int ?N - 2"
    unfolding pixel_def using N by linarith
  have r: "randint 0 (int ?N - 2) s = (Inr pixel, ?s1)"
    using N by (simp add: randint_def pixel_def nat_diff_distrib' algebra_simps)
  from advance_cycle_frame [OF cycle]
  have fr: "pixel_object s2 = pixel_object s" "requests s2 = requests s"
    "show_faults s2 = show_faults s" "self_color s2 = self_color s" "self_bpp s2 = self_bpp s"
    by simp_all
  let ?s3 = "s2\<lparr>pixel_object := (pixel_object s2)[nat pixel := PyList color],
                 requests := requests s2 @ [SetItem pixel (PyList color)]\<rparr>"
  have st: "setitem pixel (PyList color) s2 = (None, ?s3)"
    using rng by (simp add: setitem_def fr)
  have sh: "Animation_show ?s3 =
      (if show_faults s (count_list (requests s) Show) then Some IOError else None,
       ?s3\<lparr>requests := requests ?s3 @ [Show]\<rparr>)"
    by (simp add: Animation_show_def fr)
  have sc: "scaled_channels ops (self_color s2) (pulse_intensity ops s2 pos)
                  [0..<self_bpp s2] = Inr color"
    using scale by (simp add: fr)
  have "SparklePulse_draw ops s =
             (if show_faults s (count_list (requests s) Show) then Some IOError else None,
              s2\<lparr>pixel_object := (pixel_object s)[nat pixel := PyList color],
                 requests := requests s @ [SetItem pixel (PyList color), Show]\<rparr>)"
    apply (simp only: SparklePulse_draw_def r prod.case sum.case)
    apply (simp only: cycle prod.case sum.case)
    apply (simp only: sc sum.case)
    apply (simp only: st prod.case option.case)
    apply (simp only: sh)
    apply (simp add: fr)
    done
  with rng r scaled_channels_Inr [OF scale] show ?thesis
    by (intro exI [of _ pixel]) simp
qed

section \<open>Properties of the rounding to 53 bits\<close>

lemma round_half_even_of_int: "round_half_even (of_int k) = k"
  by (simp add: round_half_even_def)

lemma round_half_even_cases:
  "round_half_even y = \<lfloor>y\<rfloor> \<and> y - of_int \<lfloor>y\<rfloor> \<le> 1 / 2 \<or>
   round_half_even y = \<lfloor>y\<rfloor> + 1 \<and> 1 / 2 \<le> y - of_int \<lfloor>y\<rfloor>"
  by (auto simp: round_half_even_def Let_def)

lemma round_half_even_error: "\<bar>of_int (round_half_even y) - y\<bar> \<le> 1 / 2"
proof -
  have "of_int \<lfloor>y\<rfloor> \<le> y" and "y < of_int \<lfloor>y\<rfloor> + 1"
    by linarith+
  with round_half_even_cases [of y] show ?thesis
    by (auto simp: abs_le_iff)
qed

lemma round_half_even_mono:
  assumes "y \<le> z"
  shows "round_half_even y \<le> round_half_even z"
proof (cases "\<lfloor>y\<rfloor> = \<lfloor>z\<rfloor>")
  case True
  with assms show ?thesis
    by (auto simp: round_half_even_def Let_def)
next
  case False
  with assms have "\<lfloor>y\<rfloor> + 1 \<le> \<lfloor>z\<rfloor>"
    using floor_mono [of y z] by linarith
  moreover have "round_half_even y \<le> \<lfloor>y\<rfloor> + 1"
    using round_half_even_cases [of y] by linarith
  moreover have "\<lfloor>z\<rfloor> \<le> round_half_even z"
    using round_half_even_cases [of z] by linarith
  ultimately show ?thesis by linarith
qed

lemma binade_bounds:
  assumes "0 < x"
  shows "2 powi binade x \<le> x \<and> x < 2 powi (binade x + 1)"
proof -
  obtain p q where pq: "quotient_of x = (p, q)" by (cases "quotient_of x")
  then have q: "0 < q" by (rule quotient_of_denom_pos)
  from pq have x: "x = of_int p / of_int q" by (rule quotient_of_div)
  with assms q have p: "0 < p" by (simp add: zero_less_divide_iff)
  define a where "a = bitlen p"
  define b where "b = bitlen q"
  have a1: "1 \<le> a" and b1: "1 \<le> b"
    using p q by (auto simp: a_def b_def bitlen_alt_def)
  from bitlen_bounds [OF p] have pl: "(2::int) ^ nat (a - 1) \<le> p" and pu: "p < 2 ^ nat a"
    by (simp_all add: a_def)
  from bitlen_bounds [OF q] have ql: "(2::int) ^ nat (b - 1) \<le> q" and qu: "q < 2 ^ nat b"
    by (simp_all add: b_def)
  have PL: "(2::rat) powi (a - 1) \<le> of_int p"
  proof -
    have "(of_int ((2::int) ^ nat (a - 1)) :: rat) \<le> of_int p"
      using pl by (simp only: of_int_le_iff)
    then show ?thesis using a1 by (simp add: power_int_def)
  qed
  have PU: "of_int p < (2::rat) powi a"
  proof -
    have "(of_int p :: rat) < of_int ((2::int) ^ nat a)"
      using pu by (simp only: of_int_less_iff)
    then show ?thesis using a1 by (simp add: power_int_def)
  qed
  have QL: "(2::rat) powi (b - 1) \<le> of_int q"
  proof -
    have "(of_int ((2::int) ^ nat (b - 1)) :: rat) \<le> of_int q"
      using ql by (simp only: of_int_le_iff)
    then show ?thesis using b1 by (simp add: power_int_def)
  qed
  have QU: "of_int q < (2::rat) powi b"
  proof -
    have "(of_int q :: rat) < of_int ((2::int) ^ nat b)"
      using qu by (simp only: of_int_less_iff)
    then show ?thesis using b1 by (simp add: power_int_def)
  qed
  have Q: "(0::rat) < of_int q" using q by simp
  have lower: "(2::rat) powi (a - b - 1) < x"
  proof -
    have "(2::rat) powi (a - b - 1) * of_int q < 2 powi (a - b - 1) * 2 powi b"
      using QU by (intro mult_strict_left_mono) simp_all
    also have "\<dots> = 2 powi (a - 1)"
      by (simp add: power_int_add [symmetric])
    also have "\<dots> \<le> of_int p" by (rule PL)
    finally show ?thesis using Q by (simp add: x pos_less_divide_eq)
  qed
  have upper: "x < (2::rat) powi (a - b + 1)"
  proof -
    have "of_int p < (2::rat) powi a" by (rule PU)
    also have "\<dots> = 2 powi (a - b + 1) * 2 powi (b - 1)"
      by (simp add: power_int_add [symmetric])
    also have "\<dots> \<le> 2 powi (a - b + 1) * of_int q"
      using QL by (intro mult_left_mono) simp_all
    finally show ?thesis using Q by (simp add: x pos_divide_less_eq)
  qed
  have bin: "binade x = (if 2 powi (a - b) \<le> x then a - b else a - b - 1)"
    by (simp add: binade_def pq a_def b_def)
  show ?thesis
  proof (cases "2 powi (a - b) \<le> x")
    case True
    with bin upper show ?thesis by simp
  next
    case False
    with bin lower show ?thesis by (simp add: less_imp_le)
  qed
qed

lemma pow2_less_imp_less:
  assumes "(2::rat) powi m < 2 powi n"
  shows "m < n"
proof (rule ccontr)
  assume "\<not> m < n"
  then have "n \<le> m" by simp
  then have "(2::rat) powi n \<le> 2 powi m"
    by (intro power_int_increasing) simp_all
  with assms show False by simp
qed

lemma binade_unique:
  assumes "0 < x" and lo: "2 powi e \<le> x" and hi: "x < 2 powi (e + 1)"
  shows "binade x = e"
proof -
  from binade_bounds [OF assms(1)]
  have l: "2 powi binade x \<le> x" and h: "x < 2 powi (binade x + 1)" by simp_all
  have "(2::rat) powi binade x < 2 powi (e + 1)" using l hi by linarith
  then have 1: "binade x < e + 1"
    by (rule pow2_less_imp_less)
  have "(2::rat) powi e < 2 powi (binade x + 1)" using lo h by linarith
  then have 2: "e < binade x + 1"
    by (rule pow2_less_imp_less)
  from 1 2 show ?thesis by linarith
qed

lemma pow2_pos: "(0::rat) < 2 powi n"
  by (simp add: zero_less_power_int)

lemma pow2_split: "(2::rat) powi e = 2 powi 52 * 2 powi (e - 52)"
proof -
  have "e = 52 + (e - 52)" by simp
  then have "(2::rat) powi e = 2 powi (52 + (e - 52))" by (rule arg_cong)
  also have "\<dots> = 2 powi 52 * 2 powi (e - 52)" by (rule power_int_add) simp
  finally show ?thesis .
qed

lemma pow2_split_up: "(2::rat) powi (e + 1) = 2 powi 53 * 2 powi (e - 52)"
proof -
  have "e + 1 = 53 + (e - 52)" by simp
  then have "(2::rat) powi (e + 1) = 2 powi (53 + (e - 52))" by (rule arg_cong)
  also have "\<dots> = 2 powi 53 * 2 powi (e - 52)" by (rule power_int_add) simp
  finally show ?thesis .
qed

lemma scaled_in_binade:
  assumes "0 < x"
  shows "2 powi 52 \<le> x / 2 powi (binade x - 52) \<and> x / 2 powi (binade x - 52) < 2 powi 53"
proof -
  let ?s = "(2::rat) powi (binade x - 52)"
  have s: "0 < ?s" by (rule pow2_pos)
  from binade_bounds [OF assms]
  have "2 powi 52 * ?s \<le> x" and "x < 2 powi 53 * ?s"
    by (simp_all only: pow2_split [symmetric] pow2_split_up [symmetric])
  with s show ?thesis
    by (simp add: pos_le_divide_eq pos_divide_less_eq del: power_int_numeral)
qed

lemma round_pos_bounds:
  assumes "0 < x"
  shows "2 powi binade x \<le> round_pos x \<and> round_pos x \<le> 2 powi (binade x + 1)"
proof -
  let ?s = "(2::rat) powi (binade x - 52)"
  let ?y = "x / ?s"
  have s: "0 \<le> ?s" using pow2_pos [of "binade x - 52"] by simp
  from scaled_in_binade [OF assms]
  have lo: "of_int (2 ^ 52) \<le> ?y" and hi: "?y \<le> of_int (2 ^ 53)"
    by simp_all
  from round_half_even_mono [OF lo] have "2 ^ 52 \<le> round_half_even ?y"
    by (simp only: round_half_even_of_int)
  then have "(of_int (2 ^ 52) :: rat) \<le> of_int (round_half_even ?y)"
    by (simp only: of_int_le_iff)
  then have "(2::rat) powi 52 * ?s \<le> of_int (round_half_even ?y) * ?s"
    using s by (intro mult_right_mono) simp_all
  then have 1: "2 powi binade x \<le> round_pos x"
    by (simp only: round_pos_def pow2_split [symmetric])
  from round_half_even_mono [OF hi] have "round_half_even ?y \<le> 2 ^ 53"
    by (simp only: round_half_even_of_int)
  then have "(of_int (round_half_even ?y) :: rat) \<le> of_int (2 ^ 53)"
    by (simp only: of_int_le_iff)
  then have "of_int (round_half_even ?y) * ?s \<le> (2::rat) powi 53 * ?s"
    using s by (intro mult_right_mono) simp_all
  then have 2: "round_pos x \<le> 2 powi (binade x + 1)"
    by (simp only: round_pos_def pow2_split_up [symmetric])
  from 1 2 show ?thesis ..
qed

lemma binade_mono:
  assumes "0 < x" and "x \<le> y"
  shows "binade x \<le> binade y"
proof -
  from assms have y: "0 < y" by simp
  have "(2::rat) powi binade x \<le> x" using binade_bounds [OF assms(1)] by simp
  also have "x \<le> y" by fact
  also have "y < 2 powi (binade y + 1)" using binade_bounds [OF y] by simp
  finally have "binade x < binade y + 1" by (rule pow2_less_imp_less)
  then show ?thesis by simp
qed

lemma round_pos_mono:
  assumes "0 < x" and "x \<le> y"
  shows "round_pos x \<le> round_pos y"
proof (cases "binade x = binade y")
  case True
  let ?s = "(2::rat) powi (binade y - 52)"
  have s: "0 < ?s" by (rule pow2_pos)
  then have "x / ?s \<le> y / ?s"
    using assms(2) by (simp add: divide_right_mono)
  then have "round_half_even (x / ?s) \<le> round_half_even (y / ?s)"
    by (rule round_half_even_mono)
  then have "(of_int (round_half_even (x / ?s)) :: rat) \<le> of_int (round_half_even (y / ?s))"
    by (simp only: of_int_le_iff)
  then have "of_int (round_half_even (x / ?s)) * ?s \<le> of_int (round_half_even (y / ?s)) * ?s"
    using s by (intro mult_right_mono) simp_all
  then show ?thesis by (simp only: round_pos_def True)
next
  case False
  from assms have y: "0 < y" by simp
  from False binade_mono [OF assms] have "binade x + 1 \<le> binade y" by simp
  then have "(2::rat) powi (binade x + 1) \<le> 2 powi binade y"
    by (intro power_int_increasing) simp_all
  with round_pos_bounds [OF assms(1)] round_pos_bounds [OF y] show ?thesis by linarith
qed

lemma round_pos_positive: "0 < x \<Longrightarrow> 0 < round_pos x"
  using round_pos_bounds [of x] pow2_pos [of "binade x"] by linarith

lemma round53_mono:
  assumes "x \<le> y"
  shows "round53 x \<le> round53 y"
proof -
  consider "0 < x" | "x \<le> 0" "0 < y" | "x < 0" "y = 0" | "x = 0" "y = 0" | "y < 0"
    using assms by linarith
  then show ?thesis
  proof cases
    case 1
    with assms round_pos_mono [of x y] show ?thesis by (simp add: round53_def)
  next
    case 2
    then have "round53 x \<le> 0"
      using round_pos_positive [of "- x"] by (auto simp: round53_def less_imp_le)
    moreover have "0 < round53 y"
      using 2 round_pos_positive [of y] by (simp add: round53_def)
    ultimately show ?thesis by linarith
  next
    case 3
    then show ?thesis
      using round_pos_positive [of "- x"] by (simp add: round53_def less_imp_le)
  next
    case 4
    then show ?thesis by simp
  next
    case 5
    with assms have "0 < - y" and "- y \<le> - x" and "x < 0" by simp_all
    with round_pos_mono [of "- y" "- x"] 5 show ?thesis by (simp add: round53_def)
  qed
qed

lemma round_pos_error:
  assumes "0 < x"
  shows "\<bar>round_pos x - x\<bar> \<le> x / 2 ^ 53"
proof -
  let ?s = "(2::rat) powi (binade x - 52)"
  let ?y = "x / ?s"
  have s: "0 < ?s" by (rule pow2_pos)
  have x: "x = ?y * ?s" using s by simp
  have "round_pos x - x = (of_int (round_half_even ?y) - ?y) * ?s"
    using s by (simp add: round_pos_def algebra_simps)
  then have "\<bar>round_pos x - x\<bar> = \<bar>of_int (round_half_even ?y) - ?y\<bar> * ?s"
    using s by (simp add: abs_mult)
  also have "\<dots> \<le> 1 / 2 * ?s"
    using s round_half_even_error [of ?y] by (intro mult_right_mono) simp_all
  also have "\<dots> = 2 powi binade x / 2 ^ 53"
    by (simp add: pow2_split [of "binade x"] del: power_int_numeral) simp
  also have "\<dots> \<le> x / 2 ^ 53"
    using binade_bounds [OF assms] by (simp add: divide_right_mono)
  finally show ?thesis .
qed

lemma round53_error: "\<bar>round53 x - x\<bar> \<le> 1 / 2 ^ 53 * \<bar>x\<bar>"
proof -
  consider "x = 0" | "0 < x" | "x < 0" by linarith
  then show ?thesis
  proof cases
    case 1
    then show ?thesis by (simp add: round53_def)
  next
    case 2
    with round_pos_error [of x] show ?thesis by (simp add: round53_def)
  next
    case 3
    then have "\<bar>round53 x - x\<bar> = \<bar>round_pos (- x) - (- x)\<bar>"
      by (simp add: round53_def abs_if)
    with 3 round_pos_error [of "- x"] show ?thesis by simp
  qed
qed

lemma round53_eval:
  assumes "0 < x" and "2 powi e \<le> x" and "x < 2 powi (e + 1)"
  shows "round53 x = of_int (round_half_even (x / 2 powi (e - 52))) * 2 powi (e - 52)"
  using assms binade_unique [OF assms] by (simp add: round53_def round_pos_def)

lemma round_pos_exact:
  assumes m: "0 < m" "m < 2 ^ 53"
  shows "round_pos (of_int m * 2 powi k) = of_int m * 2 powi k"
proof -
  let ?x = "of_int m * (2::rat) powi k"
  let ?e = "binade ?x"
  have x: "0 < ?x" using m pow2_pos [of k] by simp
  have "(of_int m :: rat) < of_int (2 ^ 53)" using m by (simp only: of_int_less_iff)
  moreover have "(of_int (2 ^ 53) :: rat) = 2 powi 53" by simp
  ultimately have "(of_int m :: rat) < 2 powi 53" by (simp only:)
  then have "?x < 2 powi 53 * 2 powi k"
    using pow2_pos [of k] by (rule mult_strict_right_mono)
  moreover have "(2::rat) powi 53 * 2 powi k = 2 powi (53 + k)"
    by (rule power_int_add [symmetric]) simp
  moreover have "53 + k = k + 53" by simp
  ultimately have "?x < 2 powi (k + 53)" by (simp only:)
  with binade_bounds [OF x] have "(2::rat) powi ?e < 2 powi (k + 53)" by linarith
  then have "?e < k + 53" by (rule pow2_less_imp_less)
  then have n: "0 \<le> k - ?e + 52" by simp
  have "?x / 2 powi (?e - 52) = of_int m * 2 powi (k - (?e - 52))"
    by (simp add: power_int_diff)
  also have "\<dots> = of_int m * 2 ^ nat (k - ?e + 52)"
    using n by (simp add: power_int_def algebra_simps)
  also have "\<dots> = of_int (m * 2 ^ nat (k - ?e + 52))" by simp
  finally have "round_half_even (?x / 2 powi (?e - 52)) = m * 2 ^ nat (k - ?e + 52)"
    by (simp only: round_half_even_of_int)
  then have "round_pos ?x = of_int (m * 2 ^ nat (k - ?e + 52)) * 2 powi (?e - 52)"
    by (simp only: round_pos_def)
  also have "\<dots> = of_int m * (2 powi (k - ?e + 52) * 2 powi (?e - 52))"
    using n by (simp add: power_int_def)
  also have "\<dots> = ?x"
    by (simp add: power_int_add [symmetric])
  finally show ?thesis .
qed

lemma round53_exact:
  assumes "\<bar>m\<bar> < 2 ^ 53"
  shows "round53 (of_int m * 2 powi k) = of_int m * 2 powi k"
proof -
  consider "m = 0" | "0 < m" | "m < 0" by linarith
  then show ?thesis
  proof cases
    case 1
    then show ?thesis by (simp add: round53_def)
  next
    case 2
    with assms have "m < 2 ^ 53" by simp
    from round_pos_exact [OF 2 this, of k] 2 pow2_pos [of k] show ?thesis
      by (simp add: round53_def)
  next
    case 3
    let ?x = "of_int m * (2::rat) powi k"
    from 3 assms have "0 < - m" "- m < 2 ^ 53" by simp_all
    from round_pos_exact [OF this, of k]
    have r: "round_pos (- ?x) = - ?x" by simp
    have neg: "?x < 0" using 3 pow2_pos [of k] by (simp add: mult_neg_pos)
    then have nz: "?x \<noteq> 0" and np: "\<not> 0 < ?x"
      by (rule less_imp_neq, rule less_not_sym)
    have "round53 ?x = - round_pos (- ?x)"
      unfolding round53_def using nz np by (simp only: if_False)
    then show ?thesis by (simp only: r minus_minus)
  qed
qed

lemma round53_of_int: "\<bar>m\<bar> < 2 ^ 53 \<Longrightarrow> round53 (of_int m) = of_int m"
  using round53_exact [of m 0] by simp

lemma round_pos_halve:
  assumes x: "0 < x" and fixed: "round_pos x = x"
  shows "round_pos (x / 2) = x / 2"
proof -
  define e where "e = binade x"
  define m where "m = round_half_even (x / 2 powi (e - 52))"
  have s: "(0::rat) < 2 powi (e - 52)" by (rule pow2_pos)
  have xm: "x = of_int m * 2 powi (e - 52)"
    using fixed by (simp add: round_pos_def m_def e_def)
  have "x < 2 powi (e + 1)" using binade_bounds [OF x] by (simp add: e_def)
  then have "x < 2 powi 53 * 2 powi (e - 52)" by (simp only: pow2_split_up)
  then have "of_int m * 2 powi (e - 52) < (2::rat) powi 53 * 2 powi (e - 52)"
    using xm by linarith
  then have "(of_int m :: rat) < 2 powi 53"
    using s by (simp only: mult_less_cancel_right_pos)
  moreover have "(2::rat) powi 53 = of_int (2 ^ 53)" by simp
  ultimately have "(of_int m :: rat) < of_int (2 ^ 53)" by (simp only:)
  then have m1: "m < 2 ^ 53" by (simp only: of_int_less_iff)
  have "0 < of_int m * (2::rat) powi (e - 52)" using x xm by simp
  then have "(0::rat) < of_int m" using s by (simp only: zero_less_mult_pos2)
  then have m0: "0 < m" by simp
  have "x / 2 = of_int m * (2 powi (e - 52) / 2)" by (simp add: xm)
  also have "(2::rat) powi (e - 52) / 2 = 2 powi (e - 52 - 1)"
    by (simp add: power_int_diff)
  finally have "x / 2 = of_int m * 2 powi (e - 52 - 1)" .
  with round_pos_exact [OF m0 m1, of "e - 52 - 1"] show ?thesis by simp
qed

lemma round53_halve:
  assumes "round53 x = x"
  shows "round53 (x / 2) = x / 2"
proof -
  consider "x = 0" | "0 < x" | "x < 0" by linarith
  then show ?thesis
  proof cases
    case 1
    then show ?thesis by (simp add: round53_def)
  next
    case 2
    with assms have "round_pos x = x" by (simp add: round53_def)
    from round_pos_halve [OF 2 this] 2 show ?thesis by (simp add: round53_def)
  next
    case 3
    with assms have "round_pos (- x) = - x" by (simp add: round53_def)
    moreover from 3 have "0 < - x" by simp
    ultimately have "round_pos (- x / 2) = - x / 2" by (rule round_pos_halve [rotated])
    with 3 show ?thesis by (simp add: round53_def)
  qed
qed

section \<open>Properties of arithmetic that rounds\<close>

lemma rounded_arith_exact: "rounded_arith (\<lambda>x. x) = exact_arith"
  by (simp add: rounded_arith_def exact_arith_def)

lemma rounding_exact: "rounding 0 (\<lambda>x. x)"
  by (simp add: rounding_def)

lemma rounding_double: "rounding (1 / 2 ^ 53) round53"
  unfolding rounding_def
proof (intro conjI allI impI)
  show "round53 1 = 1" using round53_of_int [of 1] by simp
  show "round53 2 = 2" using round53_of_int [of 2] by simp
  show "\<bar>round53 x - x\<bar> \<le> 1 / 2 ^ 53 * \<bar>x\<bar>" for x by (rule round53_error)
  show "round53 x \<le> round53 y" if "x \<le> y" for x y using that by (rule round53_mono)
qed simp_all

lemma rounding_zero: "rounding u rnd \<Longrightarrow> rnd 0 = 0"
proof -
  assume "rounding u rnd"
  then have "\<bar>rnd 0 - 0\<bar> \<le> u * \<bar>0\<bar>" unfolding rounding_def by blast
  then show ?thesis by simp
qed

lemma rounding_mono: "rounding u rnd \<Longrightarrow> x \<le> y \<Longrightarrow> rnd x \<le> rnd y"
  unfolding rounding_def by blast

lemma rounding_nonneg: "rounding u rnd \<Longrightarrow> 0 \<le> x \<Longrightarrow> 0 \<le> rnd x"
  using rounding_mono [of u rnd 0 x] rounding_zero [of u rnd] by simp


lemma rounding_nonzero:
  assumes "rounding u rnd" and "x \<noteq> 0"
  shows "rnd x \<noteq> 0"
proof
  assume z: "rnd x = 0"
  from assms(1) have e: "\<bar>rnd x - x\<bar> \<le> u * \<bar>x\<bar>" and u: "u < 1"
    unfolding rounding_def by blast+
  from assms(2) have "0 < \<bar>x\<bar>" by simp
  with u have "u * \<bar>x\<bar> < 1 * \<bar>x\<bar>" by (intro mult_strict_right_mono)
  with e z show False by simp
qed

lemma advance_cycle_rounded:
  assumes r: "rounding u rnd" and p: "0 < self_period s"
    and rp: "rnd (self_period s) = self_period s"
  shows "\<exists>pos. advance_cycle (rounded_arith rnd) s =
             (Inr pos, s\<lparr>clock_reads := clock_reads s + 1,
                         self_last_update := clock s (clock_reads s),
                         self_cycle_position := pos\<rparr>) \<and>
           0 \<le> pos \<and> pos \<le> self_period s"
proof -
  define t where
    "t = rnd (rnd (of_int (clock s (clock_reads s) - self_last_update s)) / rnd 1000000000)"
  define a where "a = rnd (self_cycle_position s + t)"
  define m where "m = a - self_period s * of_int \<lfloor>a / self_period s\<rfloor>"
  have nz: "rnd 1000000000 \<noteq> 0"
    using r by (rule rounding_nonzero) simp
  have run: "advance_cycle (rounded_arith rnd) s =
      (Inr (rnd m), s\<lparr>clock_reads := clock_reads s + 1,
                      self_last_update := clock s (clock_reads s),
                      self_cycle_position := rnd m\<rparr>)"
    using p nz
    by (simp add: advance_cycle_def monotonic_ns_def rounded_arith_def Let_def
        NANOS_PER_SECOND_def a_def t_def m_def)
  have lo: "of_int \<lfloor>a / self_period s\<rfloor> \<le> a / self_period s" by (rule of_int_floor_le)
  have hi: "a / self_period s < of_int \<lfloor>a / self_period s\<rfloor> + 1"
    using floor_correct [of "a / self_period s"] by simp
  have pa: "self_period s * (a / self_period s) = a" using p by simp
  have "self_period s * of_int \<lfloor>a / self_period s\<rfloor> \<le> self_period s * (a / self_period s)"
    using lo p by (intro mult_left_mono) simp_all
  then have "self_period s * of_int \<lfloor>a / self_period s\<rfloor> \<le> a" by (simp only: pa)
  then have m0: "0 \<le> m" by (simp add: m_def)
  have "self_period s * (a / self_period s) <
      self_period s * (of_int \<lfloor>a / self_period s\<rfloor> + 1)"
    using hi p by (intro mult_strict_left_mono) simp_all
  then have "a < self_period s * of_int \<lfloor>a / self_period s\<rfloor> + self_period s"
    by (simp only: pa distrib_left mult_1_right)
  then have m1: "m \<le> self_period s" by (simp add: m_def)
  have "0 \<le> rnd m" using r m0 by (rule rounding_nonneg)
  moreover have "rnd m \<le> self_period s"
    using rounding_mono [OF r m1] by (simp only: rp)
  ultimately show ?thesis using run by blast
qed




section \<open>Values of the rounding to 53 bits\<close>

lemma floor_rat_numeral: "\<lfloor>(numeral a / numeral b :: rat)\<rfloor> = numeral a div numeral b"
  using floor_divide_of_int_eq [of "numeral a" "numeral b", where ?'a = rat] by simp

lemma round53_half: "round53 (5 / 2) = 5 / 2"
  using round53_exact [of 5 "-1"] by simp

lemma round53_small:
  "round53 0 = 0" "round53 1 = 1" "round53 2 = 2" "round53 4 = 4" "round53 5 = 5"
  "round53 1000000000 = 1000000000" "round53 2500000000 = 2500000000"
  using round53_of_int [of 0] round53_of_int [of 1] round53_of_int [of 2]
    round53_of_int [of 4] round53_of_int [of 5]
    round53_of_int [of 1000000000] round53_of_int [of 2500000000]
  by simp_all

lemma round53_seven_tenths:
  "round53 (3152519739159347 / 4503599627370496) = 3152519739159347 / 4503599627370496"
  using round53_exact [of 3152519739159347 "-52"] by simp

lemma round53_two_fifths: "round53 (2 / 5) = 3602879701896397 / 9007199254740992"
proof -
  have "round53 (2 / 5) =
      of_int (round_half_even ((2 / 5) / 2 powi (- 2 - 52))) * 2 powi (- 2 - 52)"
    by (rule round53_eval) simp_all
  also have "(2 / 5 :: rat) / 2 powi (- 2 - 52) = 36028797018963968 / 5"
    by simp
  also have "round_half_even (36028797018963968 / 5) = 7205759403792794"
    by (simp add: round_half_even_def Let_def floor_rat_numeral)
  finally show ?thesis by simp
qed

lemma floor_rat_one_numeral: "\<lfloor>(1 / numeral b :: rat)\<rfloor> = 1 div numeral b"
  using floor_divide_of_int_eq [of 1 "numeral b", where ?'a = rat] by simp

lemma round53_peak_product:
  "round53 (15762598695796735 / 9007199254740992) = 7 / 4"
proof -
  have "round53 (15762598695796735 / 9007199254740992) =
      of_int (round_half_even
        ((15762598695796735 / 9007199254740992) / 2 powi (0 - 52))) * 2 powi (0 - 52)"
    by (rule round53_eval) simp_all
  also have "(15762598695796735 / 9007199254740992 :: rat) / 2 powi (0 - 52) =
      15762598695796735 / 2"
    by simp
  also have "round_half_even (15762598695796735 / 2) = 7881299347898368"
    by (simp add: round_half_even_def Let_def floor_rat_numeral)
  finally show ?thesis by simp
qed

lemma round53_peak_intensity:
  "round53 (25220157913274779 / 36028797018963968) = 6305039478318695 / 9007199254740992"
proof -
  have "round53 (25220157913274779 / 36028797018963968) =
      of_int (round_half_even
        ((25220157913274779 / 36028797018963968) / 2 powi (- 1 - 52))) * 2 powi (- 1 - 52)"
    by (rule round53_eval) simp_all
  also have "(25220157913274779 / 36028797018963968 :: rat) / 2 powi (- 1 - 52) =
      25220157913274779 / 4"
    by simp
  also have "round_half_even (25220157913274779 / 4) = 6305039478318695"
    by (simp add: round_half_even_def Let_def floor_rat_numeral)
  finally show ?thesis by simp
qed

lemma round53_above_max:
  "round53 (6305039478318695 / 9007199254740992) = 6305039478318695 / 9007199254740992"
  using round53_exact [of 6305039478318695 "-53"] by simp

lemmas round53_values =
  round53_small round53_half round53_seven_tenths round53_two_fifths
  round53_peak_product round53_peak_intensity round53_above_max




lemma round53_one_half: "round53 (1 / 2) = 1 / 2"
  using round53_exact [of 1 "-1"] by simp

lemma round53_fifty: "round53 50 = 50" "round53 100 = 100"
  using round53_of_int [of 50] round53_of_int [of 100] by simp_all

lemma rgbw_pulse_constructed:
  "SparklePulse_init double_arith rgbw_strip [100, 100, 100] 4 1 0 = Inr rgbw_pulse"
  by (simp add: SparklePulse_init_def Animation_init_def SparklePulse_recompute_color_def
      double_arith_def rounded_arith_def round53_values round53_one_half
      rgbw_strip_def rgbw_pulse_def getitem_def setitem_def monotonic_ns_def upt_rec)

section \<open>The configuration of SparklePulse\<close>

text \<open>
  The constructor establishes \<open>pulse_configured\<close> from its arguments, and \<^verbatim>\<open>draw()\<close> keeps
  it. For doubles, a period that is a double has an exact half.
\<close>

lemma pulse_configured_cong:
  "max_intensity s' = max_intensity s \<Longrightarrow> min_intensity s' = min_intensity s \<Longrightarrow>
   self_period s' = self_period s \<Longrightarrow> self_half_period s' = self_half_period s \<Longrightarrow>
   self_intensity_delta s' = self_intensity_delta s \<Longrightarrow>
   self_position_factor s' = self_position_factor s \<Longrightarrow>
   pulse_configured rnd s' = pulse_configured rnd s"
  by (simp add: pulse_configured_def)


lemma pulse_recolor_loop_config:
  "pulse_recolor_loop idxs h d s = (r, s') \<Longrightarrow>
   max_intensity s' = max_intensity s \<and> min_intensity s' = min_intensity s \<and>
   self_period s' = self_period s \<and> self_half_period s' = self_half_period s \<and>
   self_intensity_delta s' = self_intensity_delta s \<and>
   self_position_factor s' = self_position_factor s"
proof (induction idxs arbitrary: s)
  case Nil
  then show ?case by simp
next
  case (Cons p rest)
  show ?case
  proof (cases "getitem (int p) s")
    case (Inl e)
    with Cons.prems show ?thesis by simp
  next
    case (Inr v)
    let ?t = "\<lambda>c. s\<lparr>pixel_object := (pixel_object s)[nat (int p) := c],
                      requests := requests s @ [SetItem (int p) c]\<rparr>"
    from Inr have inb: "0 \<le> int p \<and> int p < int (length (pixel_object s))"
      by (simp add: getitem_def split: if_splits)
    then have st: "setitem (int p) c s = (None, ?t c)" for c
      by (simp add: setitem_def)
    consider "v = pulse_half_color s" | "v \<noteq> pulse_half_color s" "v = pulse_dim_color s"
      | "v \<noteq> pulse_half_color s" "v \<noteq> pulse_dim_color s" by blast
    then show ?thesis
    proof cases
      case 1
      with Cons.prems Inr st have "pulse_recolor_loop rest h d (?t h) = (r, s')" by simp
      from Cons.IH [OF this] show ?thesis by simp
    next
      case 2
      with Cons.prems Inr st have "pulse_recolor_loop rest h d (?t d) = (r, s')" by simp
      from Cons.IH [OF this] show ?thesis by simp
    next
      case 3
      with Cons.prems Inr have "pulse_recolor_loop rest h d s = (r, s')" by simp
      from Cons.IH [OF this] show ?thesis by simp
    qed
  qed
qed

lemma SparklePulse_recompute_color_config:
  assumes "SparklePulse_recompute_color color s = (r, s')"
  shows "max_intensity s' = max_intensity s \<and> min_intensity s' = min_intensity s \<and>
   self_period s' = self_period s \<and> self_half_period s' = self_half_period s \<and>
   self_intensity_delta s' = self_intensity_delta s \<and>
   self_position_factor s' = self_position_factor s"
proof -
  let ?h = "PyTuple (map (\<lambda>rgb. color ! rgb div 4) [0..<length color])"
  let ?d = "PyTuple (map (\<lambda>rgb. color ! rgb div 10) [0..<length color])"
  obtain r1 s1 where l: "pulse_recolor_loop [0..<length (pixel_object s)] ?h ?d s = (r1, s1)"
    by (cases "pulse_recolor_loop [0..<length (pixel_object s)] ?h ?d s")
  from pulse_recolor_loop_config [OF l] assms l show ?thesis
    by (cases r1) (auto simp: SparklePulse_recompute_color_def Let_def)
qed

lemma SparklePulse_init_configured:
  assumes r: "rounding u rnd" and p: "0 < period" and mm: "mn \<le> mx"
    and rp: "rnd period = period" and rm: "rnd mn = mn"
    and rh: "rnd (period / 2) = period / 2"
    and init: "SparklePulse_init (rounded_arith rnd) w color period mx mn = Inr s"
  shows "pulse_configured rnd s \<and> self_period s = period \<and>
         max_intensity s = mx \<and> min_intensity s = mn"
proof -
  from r have two: "rnd 2 = 2" and one: "rnd 1 = 1" unfolding rounding_def by simp_all
  from init have N: "\<not> length (pixel_object w) < 2"
    by (auto simp: SparklePulse_init_def split: if_splits)
  have hz: "period / 2 \<noteq> 0" using p by simp
  define first where "first = pixel_object w ! 0"
  have g: "getitem 0 w = Inr first"
    using N by (auto simp: getitem_def first_def)
  from init N hz g obtain bpp where b: "len_of first = Inr bpp"
    by (cases "len_of first")
      (simp_all add: SparklePulse_init_def rounded_arith_def two one rh)
  define s0 :: "rat sparkle_pulse" where "s0 =
     \<lparr>pixel_object = pixel_object w, requests = requests w,
      show_faults = show_faults w, entropy = entropy w, drawn = drawn w, clock = clock w,
      clock_reads = clock_reads w + 1,
      self_color = PyTuple color,
      max_intensity = mx, min_intensity = mn, self_period = period,
      self_intensity_delta = rnd (mx - mn),
      self_half_period = period / 2,
      self_position_factor = rnd (1 / (period / 2)),
      self_bpp = bpp, self_last_update = clock w (clock_reads w),
      self_cycle_position = rnd 0,
      pulse_half_color = PyNone, pulse_dim_color = PyNone\<rparr>"
  from init N hz g b have
    "Animation_init SparklePulse_recompute_color color (s0\<lparr>self_color := PyNone\<rparr>) = Inr s"
    by (simp add: SparklePulse_init_def rounded_arith_def two one rh monotonic_ns_def s0_def)
  then obtain e where rc: "SparklePulse_recompute_color color s0 = (e, s)"
    by (cases "SparklePulse_recompute_color color s0")
      (auto simp: Animation_init_def s0_def split: option.splits)
  from SparklePulse_recompute_color_config [OF rc]
  have f: "max_intensity s = mx" "min_intensity s = mn" "self_period s = period"
    "self_half_period s = period / 2" "self_intensity_delta s = rnd (mx - mn)"
    "self_position_factor s = rnd (1 / (period / 2))"
    by (simp_all add: s0_def)
  show ?thesis
    unfolding pulse_configured_def f
    using p mm rp rm rh by blast
qed

lemma SparklePulse_init_double_configured:
  assumes "0 < period" and "mn \<le> mx"
    and "round53 period = period" and "round53 mn = mn"
    and "SparklePulse_init double_arith w color period mx mn = Inr s"
  shows "pulse_configured round53 s \<and> self_period s = period \<and>
         max_intensity s = mx \<and> min_intensity s = mn"
  using SparklePulse_init_configured [OF rounding_double assms(1,2,3,4)
      round53_halve [OF assms(3)]] assms(5)
  unfolding double_arith_def by blast

lemma SparklePulse_draw_config:
  "max_intensity (snd (SparklePulse_draw ops s)) = max_intensity s \<and>
   min_intensity (snd (SparklePulse_draw ops s)) = min_intensity s \<and>
   self_period (snd (SparklePulse_draw ops s)) = self_period s \<and>
   self_half_period (snd (SparklePulse_draw ops s)) = self_half_period s \<and>
   self_intensity_delta (snd (SparklePulse_draw ops s)) = self_intensity_delta s \<and>
   self_position_factor (snd (SparklePulse_draw ops s)) = self_position_factor s"
  by (auto simp: SparklePulse_draw_def randint_def advance_cycle_def monotonic_ns_def
      setitem_def Animation_show_def Let_def split: prod.splits sum.splits option.splits)

lemma SparklePulse_draw_keeps_configuration:
  "pulse_configured rnd (snd (SparklePulse_draw ops s)) = pulse_configured rnd s"
  using SparklePulse_draw_config [of ops s] by (intro pulse_configured_cong) simp_all


section \<open>The intensity of SparklePulse\<close>




section \<open>SparklePulse.draw on a buffer with more channels than the colour\<close>

lemma scaled_channels_rounded:
  "\<forall>n\<in>set ns. n < length cs \<Longrightarrow>
   scaled_channels (rounded_arith rnd) (PyTuple cs) intensity ns =
     Inr (map (\<lambda>n. let x = rnd (rnd (of_int (cs ! n)) * intensity)
                    in if 0 \<le> x then \<lfloor>x\<rfloor> else \<lceil>x\<rceil>) ns)"
  by (induction ns) (simp_all add: rounded_arith_def Let_def)

lemma scaled_channels_short_colour:
  "\<exists>n\<in>set ns. length cs \<le> n \<Longrightarrow>
   scaled_channels (rounded_arith rnd) (PyTuple cs) intensity ns = Inl IndexError"
proof (induction ns)
  case Nil
  then show ?case by simp
next
  case (Cons n rest)
  show ?case
  proof (cases "n < length cs")
    case False
    then show ?thesis by simp
  next
    case True
    with Cons.prems have "\<exists>k\<in>set rest. length cs \<le> k" by auto
    from Cons.IH [OF this] True show ?thesis by (simp add: rounded_arith_def)
  qed
qed

lemma pulse_draw_rounded:
  assumes r: "rounding u rnd" and N: "2 \<le> length (pixel_object s)"
    and p: "0 < self_period s" and rp: "rnd (self_period s) = self_period s"
    and col: "self_color s = PyTuple cs" and bpp: "self_bpp s \<le> length cs"
  shows "\<exists>pixel pos color.
           0 \<le> pixel \<and> pixel \<le> int (length (pixel_object s)) - 2 \<and>
           length color = self_bpp s \<and>
           SparklePulse_draw (rounded_arith rnd) s =
             (if show_faults s (count_list (requests s) Show) then Some IOError else None,
              s\<lparr>drawn := drawn s + 1, clock_reads := clock_reads s + 1,
                 self_last_update := clock s (clock_reads s),
                 self_cycle_position := pos,
                 pixel_object := (pixel_object s)[nat pixel := PyList color],
                 requests := requests s @ [SetItem pixel (PyList color), Show]\<rparr>)"
proof -
  let ?s1 = "s\<lparr>drawn := drawn s + 1\<rparr>"
  have p1: "0 < self_period ?s1" and rp1: "rnd (self_period ?s1) = self_period ?s1"
    using p rp by simp_all
  from advance_cycle_rounded [OF r p1 rp1] obtain pos where
    cyc: "advance_cycle (rounded_arith rnd) ?s1 =
       (Inr pos, ?s1\<lparr>clock_reads := clock_reads ?s1 + 1,
                      self_last_update := clock ?s1 (clock_reads ?s1),
                      self_cycle_position := pos\<rparr>)"
    by blast
  let ?s2 = "?s1\<lparr>clock_reads := clock_reads ?s1 + 1,
                  self_last_update := clock ?s1 (clock_reads ?s1),
                  self_cycle_position := pos\<rparr>"
  have "\<forall>n\<in>set [0..<self_bpp s]. n < length cs" using bpp by simp
  from scaled_channels_rounded [OF this, of rnd "pulse_intensity (rounded_arith rnd) ?s2 pos"]
  obtain color where
    sc: "scaled_channels (rounded_arith rnd) (self_color s)
           (pulse_intensity (rounded_arith rnd) ?s2 pos) [0..<self_bpp s] = Inr color"
    and len: "length color = self_bpp s"
    by (simp add: col)
  from pulse_draw_frame [OF N cyc sc] obtain pixel where
    rng: "0 \<le> pixel \<and> pixel \<le> int (length (pixel_object s)) - 2"
    and run: "SparklePulse_draw (rounded_arith rnd) s =
       (if show_faults s (count_list (requests s) Show) then Some IOError else None,
        ?s2\<lparr>pixel_object := (pixel_object s)[nat pixel := PyList color],
            requests := requests s @ [SetItem pixel (PyList color), Show]\<rparr>)"
    by blast
  from rng len run show ?thesis
    by (intro exI [of _ pixel] exI [of _ pos] exI [of _ color]) simp
qed

lemma pulse_draw_short_colour:
  assumes r: "rounding u rnd" and N: "2 \<le> length (pixel_object s)"
    and p: "0 < self_period s" and rp: "rnd (self_period s) = self_period s"
    and col: "self_color s = PyTuple cs" and bpp: "length cs < self_bpp s"
  shows "fst (SparklePulse_draw (rounded_arith rnd) s) = Some IndexError \<and>
         pixel_object (snd (SparklePulse_draw (rounded_arith rnd) s)) = pixel_object s \<and>
         requests (snd (SparklePulse_draw (rounded_arith rnd) s)) = requests s"
proof -
  let ?s1 = "s\<lparr>drawn := drawn s + 1\<rparr>"
  have p1: "0 < self_period ?s1" and rp1: "rnd (self_period ?s1) = self_period ?s1"
    using p rp by simp_all
  from advance_cycle_rounded [OF r p1 rp1] obtain pos where
    cyc: "advance_cycle (rounded_arith rnd) ?s1 =
       (Inr pos, ?s1\<lparr>clock_reads := clock_reads ?s1 + 1,
                      self_last_update := clock ?s1 (clock_reads ?s1),
                      self_cycle_position := pos\<rparr>)"
    by blast
  let ?s2 = "?s1\<lparr>clock_reads := clock_reads ?s1 + 1,
                  self_last_update := clock ?s1 (clock_reads ?s1),
                  self_cycle_position := pos\<rparr>"
  have rnd_ok: "randint 0 (int (length (pixel_object s)) - 2) s =
      (Inr (int (entropy s (drawn s) mod (length (pixel_object s) - 1))), ?s1)"
    using N by (simp add: randint_def nat_diff_distrib' algebra_simps)
  have "\<exists>n\<in>set [0..<self_bpp ?s2]. length cs \<le> n" using bpp by auto
  from scaled_channels_short_colour [OF this]
  have sc: "scaled_channels (rounded_arith rnd) (self_color ?s2)
           (pulse_intensity (rounded_arith rnd) ?s2 pos) [0..<self_bpp ?s2] = Inl IndexError"
    by (simp add: col)
  have "SparklePulse_draw (rounded_arith rnd) s = (Some IndexError, ?s2)"
    apply (simp only: SparklePulse_draw_def rnd_ok prod.case sum.case)
    apply (simp only: cyc prod.case sum.case)
    apply (simp only: sc sum.case)
    done
  then show ?thesis by simp
qed

text \<open>
  Claim C5 against the code. On a strip of three RGBW pixels, constructing \<^verbatim>\<open>SparklePulse\<close>
  with the documented three-channel colour \<open>(100, 100, 100)\<close> succeeds and sets
  \<^verbatim>\<open>self._bpp\<close> to 4. The first \<^verbatim>\<open>draw()\<close> then raises \<open>IndexError\<close> at line 155, on
  \<^verbatim>\<open>self.color[3]\<close>: no pixel is written and no flush is requested; only the random
  source, the clock reading and the cycle position have moved.
\<close>

theorem pulse_draw_raises_on_rgbw:
  "SparklePulse_init double_arith rgbw_strip [100, 100, 100] 4 1 0 = Inr rgbw_pulse \<and>
   self_bpp rgbw_pulse = 4 \<and>
   SparklePulse_draw double_arith rgbw_pulse =
     (Some IndexError,
      rgbw_pulse\<lparr>drawn := 1, clock_reads := 2, self_last_update := 1000000000,
                  self_cycle_position := 1\<rparr>) \<and>
   pixel_object (snd (SparklePulse_draw double_arith rgbw_pulse)) = pixel_object rgbw_pulse \<and>
   requests (snd (SparklePulse_draw double_arith rgbw_pulse)) = []"
proof -
  have d: "SparklePulse_draw double_arith rgbw_pulse =
     (Some IndexError,
      rgbw_pulse\<lparr>drawn := 1, clock_reads := 2, self_last_update := 1000000000,
                  self_cycle_position := 1\<rparr>)"
    by (simp add: SparklePulse_draw_def randint_def advance_cycle_def monotonic_ns_def
        NANOS_PER_SECOND_def pulse_intensity_def double_arith_def rounded_arith_def
        round53_values round53_one_half round53_fifty floor_rat_one_numeral
        rgbw_pulse_def upt_rec)
  show ?thesis
    unfolding d by (simp add: rgbw_pulse_constructed) (simp add: rgbw_pulse_def)
qed

end
